theory Spec2Isabelle
  imports Complex_Main "HOL-Library.Log_Nat"
begin

section \<open>Tensors and Python exceptions\<close>

text \<open>
  The module \<^verbatim>\<open>ctools/torch_utils/network/nn_module.py\<close> is a layer of short functions
  over torch tensors. A tensor is modelled by its logical content: its \<open>shape\<close> and its
  elements in row-major order (what \<^verbatim>\<open>t.contiguous().flatten()\<close> holds). Strides and
  storage offsets are not modelled. Every \<^verbatim>\<open>raise\<close>, failed \<^verbatim>\<open>assert\<close> and
  exception of the interpreter or of torch is a value of \<open>error\<close>.
\<close>

record 'a tensor =
  shape :: "nat list"
  data :: "'a list"

datatype error =
    KeyError string
  | AssertionError
  | ZeroDivisionError
  | ValueError
  | IndexError
  | RuntimeError
  | NotImplementedError

definition numel :: "'a tensor \<Rightarrow> nat" where
  "numel t = prod_list (shape t)"

text \<open>The invariant of every tensor torch builds: one element per index.\<close>

definition wf_tensor :: "'a tensor \<Rightarrow> bool" where
  "wf_tensor t \<longleftrightarrow> length (data t) = prod_list (shape t)"

text \<open>Row-major flat offset of a multi-index, and the multi-index of a flat offset.\<close>

fun ravel :: "nat list \<Rightarrow> nat list \<Rightarrow> nat" where
  "ravel (d # ds) (i # is) = i * prod_list ds + ravel ds is"
| "ravel _ _ = 0"

fun unravel :: "nat list \<Rightarrow> nat \<Rightarrow> nat list" where
  "unravel [] n = []"
| "unravel (d # ds) n = (n div prod_list ds) # unravel ds (n mod prod_list ds)"

text \<open>\<^verbatim>\<open>t[i0, i1, ...]\<close> for an index inside the shape.\<close>

definition item :: "'a tensor \<Rightarrow> nat list \<Rightarrow> 'a" where
  "item t idx = data t ! ravel (shape t) idx"

definition valid_index :: "nat list \<Rightarrow> nat list \<Rightarrow> bool" where
  "valid_index ds idx \<longleftrightarrow> list_all2 (\<lambda>i d. i < d) idx ds"

subsection \<open>\<^verbatim>\<open>Tensor.view\<close>, \<^verbatim>\<open>Tensor.permute\<close>, \<^verbatim>\<open>Tensor.contiguous\<close>\<close>

text \<open>
  \<^verbatim>\<open>t.view(*dims)\<close>: a dimension below \<open>-1\<close> is invalid, at most one dimension may be
  \<open>-1\<close> (it is inferred), and the element count must be kept. The row-major content is
  unchanged.
\<close>

definition view :: "'a tensor \<Rightarrow> int list \<Rightarrow> error + 'a tensor" where
  "view t dims =
     (if \<exists>d\<in>set dims. d < - 1 then Inl RuntimeError
      else if 1 < length (filter (\<lambda>d. d = - 1) dims) then Inl RuntimeError
      else if - 1 \<in> set dims then
        (let p = prod_list (map nat (filter (\<lambda>d. d \<noteq> - 1) dims)) in
         if p = 0 \<or> numel t mod p \<noteq> 0 then Inl RuntimeError
         else Inr \<lparr>shape = map (\<lambda>d. if d = - 1 then numel t div p else nat d) dims,
                   data = data t\<rparr>)
      else if prod_list (map nat dims) \<noteq> numel t then Inl RuntimeError
      else Inr \<lparr>shape = map nat dims, data = data t\<rparr>)"

text \<open>
  \<^verbatim>\<open>t.permute(*perm)\<close>: dimension \<open>k\<close> of the result is dimension \<open>perm ! k\<close> of \<open>t\<close>, so
  the element at index \<open>idx'\<close> of the result is the element of \<open>t\<close> at the index \<open>idx\<close>
  with \<open>idx ! (perm ! k) = idx' ! k\<close>.
\<close>

definition unpermute :: "nat list \<Rightarrow> nat list \<Rightarrow> nat list" where
  "unpermute perm idx' = map snd (sort_key fst (zip perm idx'))"

definition permute :: "'a tensor \<Rightarrow> nat list \<Rightarrow> error + 'a tensor" where
  "permute t perm =
     (if sort perm \<noteq> [0..<length (shape t)] then Inl RuntimeError
      else
        (let shp = map (\<lambda>k. shape t ! k) perm in
         Inr \<lparr>shape = shp,
              data = map (\<lambda>n. data t ! ravel (shape t) (unpermute perm (unravel shp n)))
                       [0..<prod_list shp]\<rparr>))"

text \<open>\<^verbatim>\<open>t.contiguous()\<close> changes the memory layout only, not the logical content.\<close>

definition contiguous :: "'a tensor \<Rightarrow> 'a tensor" where
  "contiguous t = t"

section \<open>\<^verbatim>\<open>ChannelShuffle\<close>\<close>

record ChannelShuffle =
  group_num :: int

text \<open>
  \<^verbatim>\<open>
  def forward(self, x):
      b, c, h, w = x.shape
      g = self.group_num
      assert (c % g == 0)
      x = x.view(b, g, c // g, h, w).permute(0, 2, 1, 3, 4).contiguous().view(b, c, h, w)
      return x
  \<close>
  The unpacking raises \<open>ValueError\<close> unless \<open>x\<close> has four dimensions; \<^verbatim>\<open>c % g\<close> raises
  \<open>ZeroDivisionError\<close> for \<open>g = 0\<close>. Python's \<^verbatim>\<open>%\<close> and \<^verbatim>\<open>//\<close> on integers are HOL's
  \<open>mod\<close> and \<open>div\<close> on \<open>int\<close> (both round towards minus infinity).
\<close>

definition ChannelShuffle_forward :: "ChannelShuffle \<Rightarrow> 'a tensor \<Rightarrow> error + 'a tensor" where
  "ChannelShuffle_forward self x =
     (case shape x of
        [b, c, h, w] \<Rightarrow>
          (let g = group_num self in
           if g = 0 then Inl ZeroDivisionError
           else if int c mod g \<noteq> 0 then Inl AssertionError
           else
             (case view x [int b, g, int c div g, int h, int w] of
                Inl e \<Rightarrow> Inl e
              | Inr x1 \<Rightarrow>
                 (case permute x1 [0, 2, 1, 3, 4] of
                    Inl e \<Rightarrow> Inl e
                  | Inr x2 \<Rightarrow> view (contiguous x2) [int b, int c, int h, int w])))
      | _ \<Rightarrow> Inl ValueError)"

text \<open>
  The data of the shuffled tensor, written out: with \<open>G\<close> groups of \<open>n\<close> channels, the
  element at offset \<open>m\<close> of the result is read from the five-dimensional view
  \<open>[b, G, n, h, w]\<close> of the input at the index of \<open>m\<close> in \<open>[b, n, G, h, w]\<close> with
  its second and third coordinates exchanged.
\<close>

definition shuffled :: "'a tensor \<Rightarrow> nat \<Rightarrow> nat \<Rightarrow> nat \<Rightarrow> nat \<Rightarrow> nat \<Rightarrow> 'a list" where
  "shuffled x b G n h w =
     map (\<lambda>m. data x ! ravel [b, G, n, h, w]
                (unpermute [0, 2, 1, 3, 4] (unravel [b, n, G, h, w] m)))
       [0..<b * (n * (G * (h * w)))]"

text \<open>
  \<^verbatim>\<open>ChannelShuffle(c // g).forward(ChannelShuffle(g).forward(x))\<close> with
  \<^verbatim>\<open>c = x.shape[1]\<close>: an exception of the first call propagates.
\<close>

definition shuffle_round_trip :: "int \<Rightarrow> 'a tensor \<Rightarrow> error + 'a tensor" where
  "shuffle_round_trip g x =
     (case ChannelShuffle_forward \<lparr>group_num = g\<rparr> x of
        Inl e \<Rightarrow> Inl e
      | Inr y \<Rightarrow> ChannelShuffle_forward \<lparr>group_num = int (shape x ! 1) div g\<rparr> y)"

section \<open>\<^verbatim>\<open>one_hot\<close>\<close>

text \<open>
  \<^verbatim>\<open>torch.nn.functional.one_hot(val, num_classes)\<close> on a CPU Long tensor: an empty tensor
  needs a positive class count; otherwise every class value must be non-negative,
  \<open>num_classes = -1\<close> infers the count as the largest value plus one, and any other
  count must exceed every value. The result has one more trailing dimension.
\<close>

definition one_hot_row :: "nat \<Rightarrow> int \<Rightarrow> int list" where
  "one_hot_row n v = map (\<lambda>j. if int j = v then 1 else 0) [0..<n]"

definition F_one_hot :: "int tensor \<Rightarrow> int \<Rightarrow> error + int tensor" where
  "F_one_hot val num_classes =
     (if data val = [] then
        (if num_classes \<le> 0 then Inl RuntimeError
         else Inr \<lparr>shape = shape val @ [nat num_classes], data = []\<rparr>)
      else if \<exists>v\<in>set (data val). v < 0 then Inl RuntimeError
      else if num_classes \<noteq> - 1 \<and> (\<exists>v\<in>set (data val). num_classes \<le> v) then Inl RuntimeError
      else
        (let n = nat (if num_classes = - 1 then Max (set (data val)) + 1 else num_classes) in
         Inr \<lparr>shape = shape val @ [n], data = concat (map (one_hot_row n) (data val))\<rparr>))"

text \<open>\<^verbatim>\<open>t.float()\<close>: every integer the encoding holds (0 and 1) is a float exactly.\<close>

definition Tensor_float :: "int tensor \<Rightarrow> real tensor" where
  "Tensor_float t = \<lparr>shape = shape t, data = map real_of_int (data t)\<rparr>"

text \<open>
  \<^verbatim>\<open>
  def one_hot(val, num, num_first=False):
      return torch.nn.functional.one_hot(val, num).float()
  \<close>
\<close>

definition one_hot :: "int tensor \<Rightarrow> int \<Rightarrow> bool \<Rightarrow> error + real tensor" where
  "one_hot val num num_first =
     (case F_one_hot val num of Inl e \<Rightarrow> Inl e | Inr t \<Rightarrow> Inr (Tensor_float t))"

section \<open>\<^verbatim>\<open>NearestUpsample\<close>\<close>

text \<open>
  \<^verbatim>\<open>F.interpolate(input, scale_factor=s, mode='nearest', align_corners=a)\<close>. Before
  anything else torch rejects an \<^verbatim>\<open>align_corners\<close> that is not \<^verbatim>\<open>None\<close> under the modes
  \<^verbatim>\<open>nearest\<close> and \<^verbatim>\<open>area\<close>: ``align_corners option can only be set with the
  interpolating modes: linear | bilinear | bicubic | trilinear'' (a \<open>ValueError\<close>).
  Otherwise an input of 3 to 5 dimensions has each spatial size \<open>d\<close> replaced by
  \<open>\<lfloor>d * s\<rfloor>\<close> and output coordinate \<open>i\<close> reads input coordinate
  \<open>min \<lfloor>i / s\<rfloor> (d - 1)\<close>. The scale factor is a real number here (torch computes
  in floating point).
\<close>

definition nearest_src :: "real \<Rightarrow> nat list \<Rightarrow> nat list \<Rightarrow> nat list" where
  "nearest_src s ds idx =
     take 2 idx @ map (\<lambda>(i, d). min (nat \<lfloor>real i / s\<rfloor>) (d - 1)) (zip (drop 2 idx) (drop 2 ds))"

definition interpolate_nearest :: "'a tensor \<Rightarrow> real \<Rightarrow> bool option \<Rightarrow> error + 'a tensor" where
  "interpolate_nearest input s align_corners =
     (if align_corners \<noteq> None then Inl ValueError
      else if length (shape input) < 3 \<or> 5 < length (shape input) then Inl NotImplementedError
      else
        (let out = take 2 (shape input) @ map (\<lambda>d. nat \<lfloor>real d * s\<rfloor>) (drop 2 (shape input)) in
         if 0 \<in> set (tl (shape input)) \<or> 0 \<in> set (drop 2 out) then Inl RuntimeError
         else Inr \<lparr>shape = out,
                   data = map (\<lambda>m. data input ! ravel (shape input)
                                   (nearest_src s (shape input) (unravel out m)))
                            [0..<prod_list out]\<rparr>))"

record NearestUpsample =
  scale_factor :: real

text \<open>
  \<^verbatim>\<open>
  def forward(self, x):
      return F.interpolate(x, scale_factor=self.scale_factor, mode='nearest', align_corners=False)
  \<close>
\<close>

definition NearestUpsample_forward :: "NearestUpsample \<Rightarrow> 'a tensor \<Rightarrow> error + 'a tensor" where
  "NearestUpsample_forward self x = interpolate_nearest x (scale_factor self) (Some False)"

section \<open>\<^verbatim>\<open>weight_init_\<close>\<close>

text \<open>
  The three initialisers of \<^verbatim>\<open>torch.nn.init\<close> write random values into the weight in
  place, so they are parameters of the model (a trailing underscore of a Python name is
  written as a prime): each takes the weight and returns the
  weight it leaves behind, or \<open>None\<close> when torch rejects the tensor (fewer than two
  dimensions, a \<open>ValueError\<close> raised before anything is written).
\<close>

record 'w torch_init =
  xavier_normal' :: "'w \<Rightarrow> 'w option"
  kaiming_normal' :: "'w \<Rightarrow> real \<Rightarrow> 'w option"
  orthogonal' :: "'w \<Rightarrow> 'w option"

text \<open>An activation object, as far as \<^verbatim>\<open>hasattr(activation, "negative_slope")\<close> sees it.\<close>

datatype activation = Activation (negative_slope: "real option")

text \<open>
  A procedure that mutates the weight returns its outcome (an exception or \<^verbatim>\<open>None\<close>)
  and the weight as it is afterwards.
\<close>

type_synonym 'w outcome = "(error + unit) \<times> 'w"

definition in_place :: "'w option \<Rightarrow> 'w \<Rightarrow> 'w outcome" where
  "in_place r weight = (case r of None \<Rightarrow> (Inl ValueError, weight) | Some w' \<Rightarrow> (Inr (), w'))"

definition xavier_init :: "'w torch_init \<Rightarrow> 'w \<Rightarrow> activation option \<Rightarrow> 'w outcome" where
  "xavier_init lib weight args = in_place (xavier_normal' lib weight) weight"

definition kaiming_init :: "'w torch_init \<Rightarrow> 'w \<Rightarrow> activation option \<Rightarrow> 'w outcome" where
  "kaiming_init lib weight activation =
     (case activation of
        None \<Rightarrow> (Inl AssertionError, weight)
      | Some act \<Rightarrow>
         (case negative_slope act of
            Some a \<Rightarrow> in_place (kaiming_normal' lib weight a) weight
          | None \<Rightarrow> in_place (kaiming_normal' lib weight 0) weight))"

definition orthogonal_init :: "'w torch_init \<Rightarrow> 'w \<Rightarrow> activation option \<Rightarrow> 'w outcome" where
  "orthogonal_init lib weight args = in_place (orthogonal' lib weight) weight"

definition init_type_dict ::
  "'w torch_init \<Rightarrow> string \<rightharpoonup> ('w \<Rightarrow> activation option \<Rightarrow> 'w outcome)" where
  "init_type_dict lib =
     map_of [(''xavier'', xavier_init lib), (''kaiming'', kaiming_init lib),
             (''orthogonal'', orthogonal_init lib)]"

text \<open>
  \<^verbatim>\<open>
  if init_type in init_type_dict:
      init_type_dict[init_type](weight, activation)
  else:
      raise KeyError("Invalid Value in init type: {}".format(init_type))
  \<close>
\<close>

definition weight_init' :: "'w torch_init \<Rightarrow> 'w \<Rightarrow> string \<Rightarrow> activation option \<Rightarrow> 'w outcome" where
  "weight_init' lib weight init_type activation =
     (case init_type_dict lib init_type of
        Some f \<Rightarrow> f weight activation
      | None \<Rightarrow> (Inl (KeyError (''Invalid Value in init type: '' @ init_type)), weight))"

text \<open>
  A deterministic stand-in for \<^verbatim>\<open>torch.nn.init\<close>, to evaluate examples: tensors of
  fewer than two dimensions are rejected, and a constant replaces the random samples.
\<close>

definition fill_init :: "real tensor torch_init" where
  "fill_init =
     \<lparr>xavier_normal' = (\<lambda>t. if length (shape t) < 2 then None
                              else Some \<lparr>shape = shape t, data = map (\<lambda>_. 1 / 2) (data t)\<rparr>),
      kaiming_normal' = (\<lambda>t a. if length (shape t) < 2 then None
                              else Some \<lparr>shape = shape t, data = map (\<lambda>_. a) (data t)\<rparr>),
      orthogonal' = (\<lambda>t. if length (shape t) < 2 then None
                              else Some \<lparr>shape = shape t, data = map (\<lambda>_. 1) (data t)\<rparr>)\<rparr>"

section \<open>\<^verbatim>\<open>binary_encode\<close>\<close>

text \<open>
  \<^verbatim>\<open>binary_encode\<close> updates a tensor in place (\<^verbatim>\<open>x -= bit * num\<close>), so the tensors it
  names live in a store: a reference is an address, \<open>new\<close> allocates the next free
  address, and only \<open>isub\<close> writes to an address that exists already. Every torch
  operation that returns a fresh tensor (\<^verbatim>\<open>clamp\<close>, \<^verbatim>\<open>ones_like\<close>, \<^verbatim>\<open>zeros_like\<close>,
  \<^verbatim>\<open>where\<close>, \<^verbatim>\<open>stack\<close>) allocates. The function returns its outcome (an exception or
  the address of the result) together with the store it leaves. Elements are
  unbounded integers, where torch holds 64-bit ones: every value the function stores
  lies between 0 and \<open>max_val\<close>, and the scalars \<open>2 ^ (L - i - 1)\<close> it builds fit 64 bits
  as long as \<open>L \<le> 63\<close>, which the theorem about the result assumes.
\<close>

type_synonym ref = nat
type_synonym store = "int tensor list"

definition new :: "int tensor \<Rightarrow> store \<Rightarrow> ref \<times> store" where
  "new t st = (length st, st @ [t])"

definition clamp :: "int tensor \<Rightarrow> int \<Rightarrow> int \<Rightarrow> int tensor" where
  "clamp t lo hi = \<lparr>shape = shape t, data = map (\<lambda>v. min (max v lo) hi) (data t)\<rparr>"

definition ones_like :: "int tensor \<Rightarrow> int tensor" where
  "ones_like t = \<lparr>shape = shape t, data = map (\<lambda>_. 1) (data t)\<rparr>"

definition zeros_like :: "int tensor \<Rightarrow> int tensor" where
  "zeros_like t = \<lparr>shape = shape t, data = map (\<lambda>_. 0) (data t)\<rparr>"

definition ge_scalar :: "int tensor \<Rightarrow> int \<Rightarrow> bool tensor" where
  "ge_scalar t num = \<lparr>shape = shape t, data = map (\<lambda>v. num \<le> v) (data t)\<rparr>"

text \<open>\<^verbatim>\<open>torch.where(cond, a, b)\<close> on three tensors of one shape.\<close>

definition torch_where :: "bool tensor \<Rightarrow> 'a tensor \<Rightarrow> 'a tensor \<Rightarrow> 'a tensor" where
  "torch_where cond a b =
     \<lparr>shape = shape a,
      data = map (\<lambda>(p, u, v). if p then u else v) (zip (data cond) (zip (data a) (data b)))\<rparr>"

definition mul_scalar :: "int tensor \<Rightarrow> int \<Rightarrow> int tensor" where
  "mul_scalar t num = \<lparr>shape = shape t, data = map (\<lambda>v. v * num) (data t)\<rparr>"

text \<open>\<^verbatim>\<open>x -= t\<close>: the tensor at address \<open>x\<close> is overwritten.\<close>

definition isub :: "ref \<Rightarrow> int tensor \<Rightarrow> store \<Rightarrow> store" where
  "isub x t st =
     st[x := \<lparr>shape = shape (st ! x),
               data = map (\<lambda>(u, v). u - v) (zip (data (st ! x)) (data t))\<rparr>]"

text \<open>
  \<^verbatim>\<open>torch.stack(ts, dim)\<close>: the list must not be empty, all shapes must agree and
  \<open>dim\<close> (here \<open>axis\<close>) must not exceed the rank; the new dimension is inserted there.
\<close>

definition stack :: "'a tensor list \<Rightarrow> nat \<Rightarrow> error + 'a tensor" where
  "stack ts axis =
     (case ts of
        [] \<Rightarrow> Inl RuntimeError
      | t # _ \<Rightarrow>
         if \<exists>u\<in>set ts. shape u \<noteq> shape t then Inl RuntimeError
         else if length (shape t) < axis then Inl IndexError
         else
           (let outer = prod_list (take axis (shape t));
                inner = prod_list (drop axis (shape t))
            in Inr \<lparr>shape = take axis (shape t) @ [length ts] @ drop axis (shape t),
                      data = concat (map (\<lambda>k. concat (map (\<lambda>u. take inner (drop (k * inner) (data u))) ts))
                                     [0..<outer])\<rparr>))"

text \<open>
  The loop of \<^verbatim>\<open>binary_encode\<close>, from iteration \<open>i\<close> on:
  \<^verbatim>\<open>
  for i in range(L):
      num = 1 << (L - i - 1)  # 2**(L-i-1)
      bit = torch.where(x >= num, one, zero)
      x -= bit * num
      binary.append(bit)
  \<close>
\<close>

function encode_loop ::
  "nat \<Rightarrow> nat \<Rightarrow> ref \<Rightarrow> ref \<Rightarrow> ref \<Rightarrow> ref list \<Rightarrow> store \<Rightarrow> ref list \<times> store" where
  "encode_loop i L x one zero binary st =
     (if i < L then
        (let num = 2 ^ (L - i - 1);
             (bit, st1) = new (torch_where (ge_scalar (st ! x) num) (st ! one) (st ! zero)) st;
             st2 = isub x (mul_scalar (st1 ! bit) num) st1
         in encode_loop (i + 1) L x one zero (binary @ [bit]) st2)
      else (binary, st))"
  by pat_completeness auto
termination
  by (relation "measure (\<lambda>(i, L, x, one, zero, binary, st). L - i)") auto

declare encode_loop.simps [simp del]

text \<open>
  \<^verbatim>\<open>
  assert (max_val > 0)
  x = y.clamp(0, max_val)
  B = x.shape[0]
  L = int(math.log(max_val, 2)) + 1
  binary = []
  one = torch.ones_like(x)
  zero = torch.zeros_like(x)
  for i in range(L): ...
  return torch.stack(binary, dim=1)
  \<close>
  \<^verbatim>\<open>x.shape[0]\<close> raises \<open>IndexError\<close> on a tensor without dimensions.
  \<^verbatim>\<open>math.log(max_val, 2)\<close> works in double precision: it converts \<open>max_val\<close> to a
  double (\<open>double_of_int\<close>, round to nearest, ties to even) and returns the quotient of
  two logarithms computed by the platform. That computation on doubles is the parameter
  \<open>flog2\<close> of the model; nothing is assumed of it. \<^verbatim>\<open>int\<close> truncates towards zero, and
  \<^verbatim>\<open>range(L)\<close> is empty for \<open>L \<le> 0\<close>, so the loop runs \<open>encode_width\<close> times.
\<close>

definition double_of_int :: "int \<Rightarrow> int" where
  "double_of_int m =
     (let a = \<bar>m\<bar>; n = floorlog 2 (nat a) in
      if n \<le> 53 then m
      else
        (let e = n - 53; q = a div 2 ^ e; r = a mod 2 ^ e;
             q' = (if 2 ^ e < 2 * r \<or> (2 * r = 2 ^ e \<and> odd q) then q + 1 else q)
         in sgn m * q' * 2 ^ e))"

definition py_int :: "real \<Rightarrow> int" where
  "py_int x = (if 0 \<le> x then \<lfloor>x\<rfloor> else \<lceil>x\<rceil>)"

definition encode_width :: "(real \<Rightarrow> real) \<Rightarrow> int \<Rightarrow> nat" where
  "encode_width flog2 max_val = nat (py_int (flog2 (real_of_int (double_of_int max_val))) + 1)"

text \<open>A platform whose logarithm of a double is exact, to evaluate examples.\<close>

definition exact_log2 :: "real \<Rightarrow> real" where
  "exact_log2 d = log 2 d"

definition binary_encode ::
  "(real \<Rightarrow> real) \<Rightarrow> store \<Rightarrow> ref \<Rightarrow> int \<Rightarrow> (error + ref) \<times> store" where
  "binary_encode flog2 st y max_val =
     (if \<not> 0 < max_val then (Inl AssertionError, st)
      else
        (let (x, st1) = new (clamp (st ! y) 0 max_val) st in
         case shape (st1 ! x) of
           [] \<Rightarrow> (Inl IndexError, st1)
         | B # _ \<Rightarrow>
            (let L = encode_width flog2 max_val;
                 (one, st2) = new (ones_like (st1 ! x)) st1;
                 (zero, st3) = new (zeros_like (st2 ! x)) st2;
                 (binary, st4) = encode_loop 0 L x one zero [] st3
             in case stack (map (\<lambda>r. st4 ! r) binary) 1 of
                  Inl e \<Rightarrow> (Inl e, st4)
                | Inr t \<Rightarrow> (let (r, st5) = new t st4 in (Inr r, st5)))))"

text \<open>The shape of the tensor a call returned, if it returned.\<close>

definition returned_shape :: "(error + ref) \<times> store \<Rightarrow> nat list option" where
  "returned_shape res = (case fst res of Inl e \<Rightarrow> None | Inr r \<Rightarrow> Some (shape (snd res ! r)))"

text \<open>
  What the loop does to one element \<open>v\<close> of \<open>x\<close> when \<open>k\<close> iterations remain: \<open>bits k v\<close>
  are the entries appended for it, in order, and \<open>rest k v\<close> is what is left in \<open>x\<close>.
\<close>

fun bits :: "nat \<Rightarrow> int \<Rightarrow> int list" where
  "bits 0 v = []"
| "bits (Suc k) v =
     (if 2 ^ k \<le> v then 1 else 0) # bits k (v - (if 2 ^ k \<le> v then 1 else 0) * 2 ^ k)"

fun rest :: "nat \<Rightarrow> int \<Rightarrow> int" where
  "rest 0 v = v"
| "rest (Suc k) v = rest k (v - (if 2 ^ k \<le> v then 1 else 0) * 2 ^ k)"

text \<open>One iteration on one element, with \<open>k\<close> iterations to follow.\<close>

definition step :: "nat \<Rightarrow> int \<Rightarrow> int" where
  "step k v = v - (if 2 ^ k \<le> v then 1 else 0) * 2 ^ k"

section \<open>Index arithmetic\<close>

lemma ravel_less: "valid_index ds idx \<Longrightarrow> ravel ds idx < prod_list ds"
proof (induction ds idx rule: ravel.induct)
  case (1 d ds i "is")
  then have i: "i < d" and v: "valid_index ds is" by (simp_all add: valid_index_def)
  from 1 v have r: "ravel ds is < prod_list ds" by simp
  have "i * prod_list ds + ravel ds is < (i + 1) * prod_list ds" using r by simp
  also have "\<dots> \<le> d * prod_list ds" using i by (intro mult_le_mono1) simp
  finally show ?case by simp
qed (auto simp: valid_index_def)

lemma unravel_ravel: "valid_index ds idx \<Longrightarrow> unravel ds (ravel ds idx) = idx"
proof (induction ds idx rule: ravel.induct)
  case (1 d ds i "is")
  then have v: "valid_index ds is" by (simp add: valid_index_def)
  then have r: "ravel ds is < prod_list ds" by (rule ravel_less)
  with 1 v show ?case by simp
qed (auto simp: valid_index_def)

lemma ravel_unravel: "n < prod_list ds \<Longrightarrow> ravel ds (unravel ds n) = n"
proof (induction ds arbitrary: n)
  case (Cons d ds)
  then have pos: "0 < prod_list ds" by (cases "prod_list ds = 0") auto
  with Cons.IH [of "n mod prod_list ds"] show ?case by simp
qed simp

lemma valid_unravel: "n < prod_list ds \<Longrightarrow> valid_index ds (unravel ds n)"
proof (induction ds arbitrary: n)
  case (Cons d ds)
  then have pos: "0 < prod_list ds" by (cases "prod_list ds = 0") auto
  have "n div prod_list ds < d" using Cons.prems pos
    by (simp add: less_mult_imp_div_less mult.commute)
  moreover have "valid_index ds (unravel ds (n mod prod_list ds))"
    using Cons.IH pos by simp
  ultimately show ?case by (simp add: valid_index_def)
qed (simp add: valid_index_def)

lemma valid_index5:
  assumes "valid_index [b, G, n, h, w] idx"
  obtains bi q r hi wi where "idx = [bi, q, r, hi, wi]" "bi < b" "q < G" "r < n" "hi < h" "wi < w"
  using assms by (auto simp: valid_index_def list_all2_Cons2)

lemma ravel4_split:
  "ravel [b, G * n, h, w] [bi, q * n + r, hi, wi] = ravel [b, G, n, h, w] [bi, q, r, hi, wi]"
  by (simp add: algebra_simps)

section \<open>Channel shuffle: the permutation\<close>

lemma unpermute_swap: "unpermute [0, 2, 1, 3, 4] [a, b, c, d, e] = [a, c, b, d, e]"
  by (simp add: unpermute_def)

lemma sort_swap: "sort [0, 2, 1, 3, 4::nat] = [0..<5]"
  by (simp add: upt_rec)

lemma view_nat:
  assumes "prod_list ds = numel t"
  shows "view t (map int ds) = Inr \<lparr>shape = ds, data = data t\<rparr>"
proof -
  have a: "\<not> (\<exists>d\<in>set (map int ds). d < - 1)" by auto
  have b: "filter (\<lambda>d. d = - 1) (map int ds) = []" by (auto simp: filter_empty_conv)
  have c: "- 1 \<notin> set (map int ds)" by auto
  have d: "map nat (map int ds) = ds" by (simp add: comp_def)
  show ?thesis
    unfolding view_def using assms by (simp only: a b c d if_False list.size) simp
qed

lemma forward_groups:
  assumes sh: "shape x = [b, G * n, h, w]" and G: "0 < G"
  shows "ChannelShuffle_forward \<lparr>group_num = int G\<rparr> x =
           Inr \<lparr>shape = [b, G * n, h, w], data = shuffled x b G n h w\<rparr>"
proof -
  have dv: "int (G * n) div int G = int n" using G by (simp add: zdiv_int [symmetric])
  have md: "int (G * n) mod int G = 0" by (simp add: zmod_int [symmetric])
  have v1: "view x [int b, int G, int n, int h, int w] =
        Inr \<lparr>shape = [b, G, n, h, w], data = data x\<rparr>"
    using view_nat [of "[b, G, n, h, w]" x] by (simp add: numel_def sh)
  have p: "permute \<lparr>shape = [b, G, n, h, w], data = data x\<rparr> [0, 2, 1, 3, 4] =
        Inr \<lparr>shape = [b, n, G, h, w], data = shuffled x b G n h w\<rparr>"
    by (simp add: permute_def sort_swap shuffled_def)
  have v2: "view \<lparr>shape = [b, n, G, h, w], data = d\<rparr> [int b, int (G * n), int h, int w] =
        Inr \<lparr>shape = [b, G * n, h, w], data = d\<rparr>" for d :: "'a list"
    using view_nat [of "[b, G * n, h, w]" "\<lparr>shape = [b, n, G, h, w], data = d\<rparr>"]
    by (simp add: numel_def mult.left_commute)
  show ?thesis
    unfolding ChannelShuffle_forward_def sh using G
    by (simp add: dv md v1 p v2 contiguous_def del: One_nat_def of_nat_mult)
qed

lemma forward_explicit:
  assumes sh: "shape x = [b, c, h, w]" and g: "0 < g" and dv: "int c mod g = 0"
  shows "ChannelShuffle_forward \<lparr>group_num = g\<rparr> x =
           Inr \<lparr>shape = [b, c, h, w], data = shuffled x b (nat g) (c div nat g) h w\<rparr>"
proof -
  have "int (c mod nat g) = 0" using dv g by (simp add: zmod_int)
  then have c: "nat g * (c div nat g) = c" using mult_div_mod_eq [of "nat g" c] by simp
  have sh': "shape x = [b, nat g * (c div nat g), h, w]" by (simp only: c sh)
  have "0 < nat g" using g by simp
  from forward_groups [OF sh' this] show ?thesis using g by (simp only: c int_nat_eq) simp
qed

lemma shuffled_nth:
  assumes "bi < b" "r < n" "q < G" "hi < h" "wi < w"
  shows "shuffled x b G n h w ! ravel [b, n, G, h, w] [bi, r, q, hi, wi] =
         data x ! ravel [b, G, n, h, w] [bi, q, r, hi, wi]"
proof -
  have v: "valid_index [b, n, G, h, w] [bi, r, q, hi, wi]"
    using assms by (simp add: valid_index_def)
  from ravel_less [OF v] have lt: "ravel [b, n, G, h, w] [bi, r, q, hi, wi] < b * (n * (G * (h * w)))"
    by simp
  show ?thesis
    unfolding shuffled_def using lt
    by (simp only: nth_map_upt add_0 unravel_ravel [OF v] unpermute_swap length_upt diff_zero nth_upt)
qed

lemma shuffled_shuffled:
  assumes len: "length (data x) = b * (G * (n * (h * w)))"
  shows "shuffled \<lparr>shape = s, data = shuffled x b G n h w\<rparr> b n G h w = data x"
proof (rule nth_equalityI)
  show "length (shuffled \<lparr>shape = s, data = shuffled x b G n h w\<rparr> b n G h w) = length (data x)"
    by (simp add: shuffled_def len)
next
  fix m
  assume "m < length (shuffled \<lparr>shape = s, data = shuffled x b G n h w\<rparr> b n G h w)"
  then have m: "m < prod_list [b, G, n, h, w]" by (simp add: shuffled_def)
  from valid_unravel [OF m] obtain bi q r hi wi
    where idx: "unravel [b, G, n, h, w] m = [bi, q, r, hi, wi]"
      and bd: "bi < b" "q < G" "r < n" "hi < h" "wi < w"
    by (rule valid_index5)
  have "shuffled \<lparr>shape = s, data = shuffled x b G n h w\<rparr> b n G h w ! m =
        shuffled x b G n h w ! ravel [b, n, G, h, w] (unpermute [0, 2, 1, 3, 4] (unravel [b, G, n, h, w] m))"
    using m unfolding shuffled_def [of "\<lparr>shape = s, data = shuffled x b G n h w\<rparr>"] by simp
  also have "\<dots> = shuffled x b G n h w ! ravel [b, n, G, h, w] [bi, r, q, hi, wi]"
    by (simp only: idx unpermute_swap)
  also have "\<dots> = data x ! ravel [b, G, n, h, w] [bi, q, r, hi, wi]"
    using bd by (intro shuffled_nth)
  also have "\<dots> = data x ! m"
    using ravel_unravel [OF m] by (simp only: idx)
  finally show "shuffled \<lparr>shape = s, data = shuffled x b G n h w\<rparr> b n G h w ! m = data x ! m" .
qed

text \<open>
  Claim C2, as stated, fails for a negative group number: 4 is divisible by \<open>-2\<close> and the
  assertion passes (\<^verbatim>\<open>4 % -2 == 0\<close>), but \<^verbatim>\<open>x.view(1, -2, -2, 1, 1)\<close> raises
  \<open>RuntimeError\<close> and no tensor is returned.
\<close>

theorem ChannelShuffle_forward_negative_groups:
  "int 4 mod (- 2) = 0 \<and>
   ChannelShuffle_forward \<lparr>group_num = - 2\<rparr>
     \<lparr>shape = [1, 4, 1, 1], data = [10, 11, 12, 13 :: int]\<rparr> = Inl RuntimeError"
  by (simp add: ChannelShuffle_forward_def view_def)

text \<open>
  Claim C2, amended. For an input \<open>x\<close> of shape \<open>(b, c, h, w)\<close> and a positive group
  number \<open>g\<close> that divides the channel count \<open>c\<close>, \<^verbatim>\<open>ChannelShuffle(g).forward(x)\<close> returns
  a tensor of the same shape whose channel \<open>r * g + q\<close> is input channel
  \<open>q * (c / g) + r\<close>, for \<open>q < g\<close> and \<open>r < c / g\<close>, at every batch entry and spatial
  position. The map of channels mentions \<open>c\<close> and \<open>g\<close> only: the statement holds for
  every element type and every content of \<open>x\<close>.
\<close>

theorem ChannelShuffle_forward_permutation:
  assumes sh: "shape x = [b, c, h, w]" and g: "0 < g" and dv: "int c mod g = 0"
  shows "\<exists>y. ChannelShuffle_forward \<lparr>group_num = g\<rparr> x = Inr y \<and> shape y = shape x \<and>
           (\<forall>bi<b. \<forall>q<nat g. \<forall>r<c div nat g. \<forall>hi<h. \<forall>wi<w.
              item y [bi, r * nat g + q, hi, wi] = item x [bi, q * (c div nat g) + r, hi, wi])"
proof -
  define G where "G = nat g"
  define n where "n = c div G"
  have "int (c mod G) = 0" using dv g by (simp add: zmod_int G_def)
  then have c: "c = G * n" using div_mult_mod_eq [of c G] by (simp add: n_def mult.commute)
  have c': "c = n * G" using c by (simp add: mult.commute)
  let ?y = "\<lparr>shape = [b, c, h, w], data = shuffled x b G n h w\<rparr>"
  have fw: "ChannelShuffle_forward \<lparr>group_num = g\<rparr> x = Inr ?y"
    unfolding G_def n_def by (rule forward_explicit [OF sh g dv])
  have "item ?y [bi, r * G + q, hi, wi] = item x [bi, q * n + r, hi, wi]"
    if "bi < b" "q < G" "r < n" "hi < h" "wi < w" for bi q r hi wi
  proof -
    have "item ?y [bi, r * G + q, hi, wi] =
          shuffled x b G n h w ! ravel [b, n * G, h, w] [bi, r * G + q, hi, wi]"
      by (simp add: item_def c')
    also have "\<dots> = shuffled x b G n h w ! ravel [b, n, G, h, w] [bi, r, q, hi, wi]"
      by (simp only: ravel4_split)
    also have "\<dots> = data x ! ravel [b, G, n, h, w] [bi, q, r, hi, wi]"
      using that by (intro shuffled_nth)
    also have "\<dots> = data x ! ravel [b, G * n, h, w] [bi, q * n + r, hi, wi]"
      by (simp only: ravel4_split)
    also have "\<dots> = item x [bi, q * n + r, hi, wi]"
      by (simp add: item_def sh c)
    finally show ?thesis .
  qed
  then show ?thesis
    unfolding fw G_def [symmetric] n_def [symmetric] by (simp add: sh)
qed

theorem ChannelShuffle_forward_permutation_witness:
  "(0::int) < 2 \<and> int 6 mod 2 = 0 \<and>
   (\<exists>y. ChannelShuffle_forward \<lparr>group_num = 2\<rparr>
          \<lparr>shape = [1, 6, 1, 1], data = [10, 11, 12, 13, 14, 15 :: int]\<rparr> = Inr y \<and>
        shape y = [1, 6, 1, 1] \<and>
        (\<forall>bi<1. \<forall>q<2. \<forall>r<3. \<forall>hi<1. \<forall>wi<1.
           item y [bi, r * 2 + q, hi, wi] =
           item \<lparr>shape = [1, 6, 1, 1], data = [10, 11, 12, 13, 14, 15 :: int]\<rparr>
             [bi, q * 3 + r, hi, wi]))"
  using ChannelShuffle_forward_permutation
    [of "\<lparr>shape = [1, 6, 1, 1], data = [10, 11, 12, 13, 14, 15 :: int]\<rparr>" 1 6 1 1 2]
  by simp

section \<open>Channel shuffle: the divisibility assertion\<close>

text \<open>
  Claim C6, as stated, fails at the group number 0: four channels are not divisible
  into zero groups, yet no \<open>AssertionError\<close> is raised, because \<^verbatim>\<open>c % g\<close> itself raises
  \<open>ZeroDivisionError\<close> before the assertion compares anything.
\<close>

theorem ChannelShuffle_forward_zero_groups:
  "\<not> (0::int) dvd int 4 \<and>
   ChannelShuffle_forward \<lparr>group_num = 0\<rparr>
     \<lparr>shape = [1, 4, 1, 1], data = [10, 11, 12, 13 :: int]\<rparr> = Inl ZeroDivisionError"
  by (simp add: ChannelShuffle_forward_def)

text \<open>
  Claim C6, amended. On a four-dimensional input with \<open>c\<close> channels and a positive
  group number \<open>g\<close>, \<^verbatim>\<open>forward\<close> raises \<open>AssertionError\<close> if and only if \<open>c\<close> is not
  divisible by \<open>g\<close>, and returns normally when it is; for \<open>g = 0\<close> the remainder
  \<^verbatim>\<open>c % g\<close> raises \<open>ZeroDivisionError\<close>. In each case the exception is the result before
  any view of \<open>x\<close> is taken.
\<close>

theorem ChannelShuffle_forward_assertion:
  assumes sh: "shape x = [b, c, h, w]"
  shows "(g = 0 \<longrightarrow> ChannelShuffle_forward \<lparr>group_num = g\<rparr> x = Inl ZeroDivisionError) \<and>
         (0 < g \<longrightarrow>
            (ChannelShuffle_forward \<lparr>group_num = g\<rparr> x = Inl AssertionError
               \<longleftrightarrow> int c mod g \<noteq> 0) \<and>
            (int c mod g = 0 \<longrightarrow> (\<exists>y. ChannelShuffle_forward \<lparr>group_num = g\<rparr> x = Inr y)))"
proof (intro conjI impI)
  show "ChannelShuffle_forward \<lparr>group_num = g\<rparr> x = Inl ZeroDivisionError" if "g = 0"
    using that by (simp add: ChannelShuffle_forward_def sh)
next
  assume g: "0 < g"
  show "ChannelShuffle_forward \<lparr>group_num = g\<rparr> x = Inl AssertionError \<longleftrightarrow> int c mod g \<noteq> 0"
  proof (cases "int c mod g = 0")
    case True
    with forward_explicit [OF sh g] show ?thesis by simp
  next
    case False
    with g show ?thesis by (simp add: ChannelShuffle_forward_def sh)
  qed
next
  assume g: "0 < g" and dv: "int c mod g = 0"
  show "\<exists>y. ChannelShuffle_forward \<lparr>group_num = g\<rparr> x = Inr y"
    by (simp add: forward_explicit [OF sh g dv])
qed

theorem ChannelShuffle_forward_assertion_witness:
  "ChannelShuffle_forward \<lparr>group_num = 2\<rparr>
     \<lparr>shape = [1, 3, 1, 1], data = [10, 11, 12 :: int]\<rparr> = Inl AssertionError \<and>
   (\<exists>y. ChannelShuffle_forward \<lparr>group_num = 2\<rparr>
          \<lparr>shape = [1, 4, 1, 1], data = [10, 11, 12, 13 :: int]\<rparr> = Inr y) \<and>
   ChannelShuffle_forward \<lparr>group_num = 0\<rparr>
     \<lparr>shape = [1, 3, 1, 1], data = [10, 11, 12 :: int]\<rparr> = Inl ZeroDivisionError"
  using ChannelShuffle_forward_assertion
          [of "\<lparr>shape = [1, 3, 1, 1], data = [10, 11, 12 :: int]\<rparr>" 1 3 1 1 2]
        ChannelShuffle_forward_assertion
          [of "\<lparr>shape = [1, 4, 1, 1], data = [10, 11, 12, 13 :: int]\<rparr>" 1 4 1 1 2]
        ChannelShuffle_forward_assertion
          [of "\<lparr>shape = [1, 3, 1, 1], data = [10, 11, 12 :: int]\<rparr>" 1 3 1 1 0]
  by simp

section \<open>Channel shuffle: the round trip\<close>

text \<open>
  Claim C9, as stated, fails on a tensor without channels: 1 divides 0 and the first
  shuffle returns the empty tensor, but the second one has the group number
  \<^verbatim>\<open>0 // 1 = 0\<close> and raises \<open>ZeroDivisionError\<close>.
\<close>

theorem shuffle_round_trip_no_channels:
  "1 dvd int 0 \<and>
   shuffle_round_trip 1 \<lparr>shape = [1, 0, 1, 1], data = ([] :: int list)\<rparr> = Inl ZeroDivisionError"
  by (simp add: shuffle_round_trip_def ChannelShuffle_forward_def view_def numel_def
        permute_def sort_swap contiguous_def)

text \<open>
  Claim C9, amended. For an input \<open>x\<close> of shape \<open>(b, c, h, w)\<close> with at least one
  channel and a positive \<open>g\<close> dividing \<open>c\<close>, applying \<^verbatim>\<open>ChannelShuffle(c // g).forward\<close> to
  \<^verbatim>\<open>ChannelShuffle(g).forward(x)\<close> returns \<open>x\<close>.
\<close>

theorem shuffle_round_trip_identity:
  assumes sh: "shape x = [b, c, h, w]" and wf: "wf_tensor x"
    and c: "0 < c" and g: "0 < g" and dv: "int c mod g = 0"
  shows "shuffle_round_trip g x = Inr x"
proof -
  let ?G = "nat g" and ?n = "c div nat g"
  have "int (c mod ?G) = 0" using dv g by (simp add: zmod_int)
  then have cG: "?G * ?n = c" using mult_div_mod_eq [of ?G c] by simp
  then have cn: "?n * ?G = c" by (simp add: mult.commute)
  have n: "0 < ?n" using c cG by (cases "?n = 0") auto
  let ?y = "\<lparr>shape = [b, c, h, w], data = shuffled x b ?G ?n h w\<rparr>"
  have f1: "ChannelShuffle_forward \<lparr>group_num = g\<rparr> x = Inr ?y"
    by (rule forward_explicit [OF sh g dv])
  have "int c div g = int c div int ?G" using g by simp
  also have "\<dots> = int ?n" by (simp only: zdiv_int)
  finally have gn: "int (shape x ! 1) div g = int ?n" by (simp add: sh)
  have shy: "shape ?y = [b, ?n * ?G, h, w]" by (simp add: cn)
  have len: "length (data x) = b * (?G * (?n * (h * w)))"
    using wf cG by (simp add: wf_tensor_def sh mult.assoc [symmetric])
  have f2: "ChannelShuffle_forward \<lparr>group_num = int ?n\<rparr> ?y =
              Inr \<lparr>shape = [b, c, h, w], data = data x\<rparr>"
    using forward_groups [OF shy n] by (simp only: shuffled_shuffled [OF len] cn)
  have "\<lparr>shape = [b, c, h, w], data = data x\<rparr> = x" using sh by simp
  with f1 f2 gn show ?thesis by (simp add: shuffle_round_trip_def)
qed

theorem shuffle_round_trip_identity_witness:
  "wf_tensor \<lparr>shape = [1, 6, 1, 1], data = [10, 11, 12, 13, 14, 15 :: int]\<rparr> \<and>
   int 6 mod 2 = 0 \<and>
   shuffle_round_trip 2 \<lparr>shape = [1, 6, 1, 1], data = [10, 11, 12, 13, 14, 15 :: int]\<rparr> =
     Inr \<lparr>shape = [1, 6, 1, 1], data = [10, 11, 12, 13, 14, 15 :: int]\<rparr>"
  using shuffle_round_trip_identity
          [of "\<lparr>shape = [1, 6, 1, 1], data = [10, 11, 12, 13, 14, 15 :: int]\<rparr>" 1 6 1 1 2]
  by (simp add: wf_tensor_def)

section \<open>One-hot encoding\<close>

lemma length_concat_rows:
  "\<forall>x\<in>set xs. length (f x) = m \<Longrightarrow> length (concat (map f xs)) = length xs * m"
  by (induction xs) auto

lemma concat_rows_nth:
  "\<forall>x\<in>set xs. length (f x) = m \<Longrightarrow> i < length xs \<Longrightarrow> j < m \<Longrightarrow>
     concat (map f xs) ! (i * m + j) = f (xs ! i) ! j"
proof (induction xs arbitrary: i)
  case Nil
  then show ?case by simp
next
  case (Cons x xs)
  show ?case
  proof (cases i)
    case 0
    with Cons.prems show ?thesis by (simp add: nth_append)
  next
    case (Suc k)
    with Cons.prems have "concat (map f xs) ! (k * m + j) = f (xs ! k) ! j"
      by (intro Cons.IH) auto
    with Cons.prems Suc show ?thesis by (simp add: nth_append)
  qed
qed

lemma ravel_append:
  "length idx = length ds \<Longrightarrow> ravel (ds @ [n]) (idx @ [j]) = ravel ds idx * n + j"
  by (induction ds idx rule: ravel.induct) (auto simp: algebra_simps)

lemma valid_index_length: "valid_index ds idx \<Longrightarrow> length idx = length ds"
  by (simp add: valid_index_def list_all2_lengthD)

lemma one_hot_row_length: "length (one_hot_row n v) = n"
  by (simp add: one_hot_row_def)

lemma one_hot_row_nth: "j < n \<Longrightarrow> one_hot_row n v ! j = (if int j = v then 1 else 0)"
  by (simp add: one_hot_row_def)

lemma F_one_hot_result:
  assumes "F_one_hot val num = Inr t"
  shows "\<exists>n. shape t = shape val @ [n] \<and> data t = concat (map (one_hot_row n) (data val))"
  using assms by (auto simp: F_one_hot_def Let_def split: if_splits)

lemma F_one_hot_in_range:
  assumes num: "0 < num" and rng: "\<forall>v\<in>set (data val). 0 \<le> v \<and> v \<le> num - 1"
  shows "F_one_hot val num =
           Inr \<lparr>shape = shape val @ [nat num], data = concat (map (one_hot_row (nat num)) (data val))\<rparr>"
proof -
  have a: "\<not> (\<exists>v\<in>set (data val). v < 0)" using rng by auto
  have b: "\<not> (\<exists>v\<in>set (data val). num \<le> v)" using rng by auto
  have c: "num \<noteq> - 1" "\<not> num \<le> 0" using num by auto
  show ?thesis
    unfolding F_one_hot_def by (simp only: a b c if_False Let_def) simp
qed

text \<open>
  Claim C3. For a Long tensor \<open>val\<close> whose elements lie in \<open>[0, num - 1]\<close> and
  \<open>num > 0\<close>, \<^verbatim>\<open>one_hot(val, num)\<close> returns a tensor with one more, trailing dimension
  of size \<open>num\<close>; for every element of \<open>val\<close> the vector along that dimension holds 1 at
  the index equal to the element's value and 0 everywhere else, so it is binary with
  exactly one set bit (its entries sum to 1).
\<close>

theorem one_hot_encoding:
  assumes num: "0 < num" and rng: "\<forall>v\<in>set (data val). 0 \<le> v \<and> v \<le> num - 1"
    and wf: "wf_tensor val"
  shows "\<exists>t. one_hot val num num_first = Inr t \<and> shape t = shape val @ [nat num] \<and> wf_tensor t \<and>
           (\<forall>idx. valid_index (shape val) idx \<longrightarrow>
              (\<forall>j<nat num. item t (idx @ [j]) = (if int j = item val idx then 1 else 0)) \<and>
              (\<Sum>j<nat num. item t (idx @ [j])) = 1)"
proof -
  let ?n = "nat num"
  let ?rows = "concat (map (one_hot_row ?n) (data val))"
  let ?t = "\<lparr>shape = shape val @ [?n], data = map real_of_int ?rows\<rparr>"
  have oh: "one_hot val num num_first = Inr ?t"
    by (simp add: one_hot_def F_one_hot_in_range [OF num rng] Tensor_float_def)
  have rl: "\<forall>v\<in>set (data val). length (one_hot_row ?n v) = ?n"
    by (simp add: one_hot_row_length)
  have len: "length ?rows = length (data val) * ?n"
    by (rule length_concat_rows [OF rl])
  have wft: "wf_tensor ?t" using wf by (simp add: wf_tensor_def len)
  have entry: "item ?t (idx @ [j]) = (if int j = item val idx then 1 else 0)"
    if v: "valid_index (shape val) idx" and j: "j < ?n" for idx j
  proof -
    have i: "ravel (shape val) idx < length (data val)"
      using ravel_less [OF v] wf by (simp add: wf_tensor_def)
    have lt: "ravel (shape val) idx * ?n + j < length ?rows"
    proof -
      have "ravel (shape val) idx * ?n + j < (ravel (shape val) idx + 1) * ?n" using j by simp
      also have "\<dots> \<le> length (data val) * ?n" using i by (intro mult_le_mono1) simp
      finally show ?thesis by (simp only: len)
    qed
    have "item ?t (idx @ [j]) = map real_of_int ?rows ! (ravel (shape val) idx * ?n + j)"
      by (simp add: item_def ravel_append [OF valid_index_length [OF v]])
    also have "\<dots> = real_of_int (?rows ! (ravel (shape val) idx * ?n + j))"
      using lt by (rule nth_map)
    also have "?rows ! (ravel (shape val) idx * ?n + j) = one_hot_row ?n (data val ! ravel (shape val) idx) ! j"
      by (rule concat_rows_nth [OF rl i j])
    also have "\<dots> = (if int j = item val idx then 1 else 0)"
      using j by (simp add: one_hot_row_nth item_def)
    finally show ?thesis by simp
  qed
  have total: "(\<Sum>j<?n. item ?t (idx @ [j])) = 1" if v: "valid_index (shape val) idx" for idx
  proof -
    have i: "ravel (shape val) idx < length (data val)"
      using ravel_less [OF v] wf by (simp add: wf_tensor_def)
    then have "item val idx \<in> set (data val)" by (simp add: item_def)
    with rng have r: "0 \<le> item val idx" "item val idx < num" by auto
    have "(\<Sum>j<?n. item ?t (idx @ [j])) = (\<Sum>j<?n. if j = nat (item val idx) then 1 else 0)"
    proof (rule sum.cong [OF refl])
      fix j assume "j \<in> {..<?n}"
      then have "j < ?n" by simp
      from entry [OF v this] r show "item ?t (idx @ [j]) = (if j = nat (item val idx) then 1 else 0)"
        by auto
    qed
    also have "\<dots> = 1" using r by simp
    finally show ?thesis .
  qed
  from oh wft entry total show ?thesis by (intro exI [of _ ?t]) simp
qed

theorem one_hot_encoding_witness:
  "wf_tensor \<lparr>shape = [2], data = [2, 0 :: int]\<rparr> \<and>
   (\<exists>t. one_hot \<lparr>shape = [2], data = [2, 0]\<rparr> 3 False = Inr t \<and> shape t = [2, 3] \<and> wf_tensor t \<and>
        (\<forall>idx. valid_index [2] idx \<longrightarrow>
           (\<forall>j<3. item t (idx @ [j]) =
                     (if int j = item \<lparr>shape = [2], data = [2, 0]\<rparr> idx then 1 else 0)) \<and>
           (\<Sum>j<3. item t (idx @ [j])) = 1))"
  using one_hot_encoding [of 3 "\<lparr>shape = [2], data = [2, 0]\<rparr>" False]
  by (simp add: wf_tensor_def)

text \<open>
  Claim C8. \<^verbatim>\<open>one_hot\<close> ignores \<^verbatim>\<open>num_first\<close>: with \<^verbatim>\<open>num_first=True\<close> and with
  \<^verbatim>\<open>num_first=False\<close> it has the same outcome for every \<open>val\<close> and \<open>num\<close>, and whenever it
  returns, the shape of the result is the shape of \<open>val\<close> followed by the one-hot
  dimension.
\<close>

theorem one_hot_ignores_num_first:
  "one_hot val num True = one_hot val num False \<and>
   (\<forall>t. one_hot val num num_first = Inr t \<longrightarrow> (\<exists>n. shape t = shape val @ [n]))"
proof
  show "one_hot val num True = one_hot val num False" by (simp add: one_hot_def)
next
  show "\<forall>t. one_hot val num num_first = Inr t \<longrightarrow> (\<exists>n. shape t = shape val @ [n])"
  proof (intro allI impI)
    fix t assume "one_hot val num num_first = Inr t"
    then obtain u where u: "F_one_hot val num = Inr u" and t: "t = Tensor_float u"
      by (auto simp: one_hot_def split: sum.splits)
    from F_one_hot_result [OF u] t show "\<exists>n. shape t = shape val @ [n]"
      by (auto simp: Tensor_float_def)
  qed
qed

theorem one_hot_ignores_num_first_witness:
  "one_hot \<lparr>shape = [2, 2], data = [2, 2, 2, 2]\<rparr> 3 True
     = Inr \<lparr>shape = [2, 2, 3], data = [0, 0, 1, 0, 0, 1, 0, 0, 1, 0, 0, 1]\<rparr> \<and>
   one_hot \<lparr>shape = [2, 2], data = [2, 2, 2, 2]\<rparr> 3 True = one_hot \<lparr>shape = [2, 2], data = [2, 2, 2, 2]\<rparr> 3 False \<and>
   (\<exists>n. [2, 2, 3] = [2, 2] @ [n])"
proof -
  have v: "one_hot \<lparr>shape = [2, 2], data = [2, 2, 2, 2]\<rparr> 3 True
     = Inr \<lparr>shape = [2, 2, 3], data = [0, 0, 1, 0, 0, 1, 0, 0, 1, 0, 0, 1]\<rparr>"
    by (simp add: one_hot_def F_one_hot_def Tensor_float_def one_hot_row_def upt_rec)
  from one_hot_ignores_num_first [of "\<lparr>shape = [2, 2], data = [2, 2, 2, 2]\<rparr>" 3 True] v show ?thesis by simp
qed

section \<open>Nearest-neighbour upsampling\<close>

text \<open>
  Without \<^verbatim>\<open>align_corners\<close> the interpolation upsamples: a factor 2 on a 2 x 2 image.
\<close>

lemma interpolate_nearest_example:
  "interpolate_nearest \<lparr>shape = [1, 1, 2, 2], data = [1, 2, 3, 4 :: int]\<rparr> 2 None =
     Inr \<lparr>shape = [1, 1, 4, 4], data = [1, 1, 2, 2, 1, 1, 2, 2, 3, 3, 4, 4, 3, 3, 4, 4]\<rparr>"
  by code_simp

text \<open>
  Claim C4 says that \<^verbatim>\<open>NearestUpsample(s).forward(x)\<close> returns \<open>x\<close> upsampled without
  raising. The code passes \<^verbatim>\<open>align_corners=False\<close> together with \<^verbatim>\<open>mode='nearest'\<close>,
  which torch rejects: for every scale factor and every input the call raises
  \<open>ValueError\<close>.
\<close>

theorem NearestUpsample_forward_raises: "NearestUpsample_forward self x = Inl ValueError"
  by (simp add: NearestUpsample_forward_def interpolate_nearest_def)

section \<open>Weight initialisation: the exceptions\<close>

lemma init_type_dict_None:
  "init_type_dict lib t = None \<longleftrightarrow> t \<notin> {''xavier'', ''kaiming'', ''orthogonal''}"
  by (simp add: init_type_dict_def)

text \<open>
  Claim C5, as stated, fails for the valid type \<^verbatim>\<open>"kaiming"\<close> when \<^verbatim>\<open>activation\<close> is
  \<^verbatim>\<open>None\<close> (its default): \<^verbatim>\<open>kaiming_init\<close> asserts \<^verbatim>\<open>activation is not None\<close>, so the call
  raises although \<^verbatim>\<open>init_type\<close> is one of the three names.
\<close>

theorem weight_init_kaiming_without_activation:
  "''kaiming'' \<in> {''xavier'', ''kaiming'', ''orthogonal''} \<and>
   weight_init' fill_init \<lparr>shape = [2, 1], data = [3, 4]\<rparr> ''kaiming'' None =
     (Inl AssertionError, \<lparr>shape = [2, 1], data = [3, 4]\<rparr>)"
  by (simp add: weight_init'_def init_type_dict_def kaiming_init_def)

text \<open>
  Claim C5, amended. \<^verbatim>\<open>weight_init_\<close> raises if and only if \<^verbatim>\<open>init_type\<close> is none of
  \<^verbatim>\<open>"xavier"\<close>, \<^verbatim>\<open>"kaiming"\<close>, \<^verbatim>\<open>"orthogonal"\<close>, or it is \<^verbatim>\<open>"kaiming"\<close> and
  \<^verbatim>\<open>activation\<close> is \<^verbatim>\<open>None\<close>, or the torch initialiser it selects rejects the weight. The
  exception is a \<open>KeyError\<close> exactly in the first case, and its message names the invalid
  value; it is an \<open>AssertionError\<close> in the second. Whenever it raises, the weight is
  left as it was; otherwise it returns with the weight as the selected initialiser
  left it.
\<close>

theorem weight_init_errors:
  "((\<exists>m. fst (weight_init' lib weight init_type activation) = Inl (KeyError m))
      \<longleftrightarrow> init_type \<notin> {''xavier'', ''kaiming'', ''orthogonal''}) \<and>
   (init_type \<notin> {''xavier'', ''kaiming'', ''orthogonal''} \<longrightarrow>
      weight_init' lib weight init_type activation =
        (Inl (KeyError (''Invalid Value in init type: '' @ init_type)), weight)) \<and>
   (init_type = ''kaiming'' \<and> activation = None \<longrightarrow>
      weight_init' lib weight init_type activation = (Inl AssertionError, weight)) \<and>
   (\<forall>e. fst (weight_init' lib weight init_type activation) = Inl e \<longrightarrow>
      snd (weight_init' lib weight init_type activation) = weight) \<and>
   ((\<exists>e. fst (weight_init' lib weight init_type activation) = Inl e) \<longleftrightarrow>
      init_type \<notin> {''xavier'', ''kaiming'', ''orthogonal''} \<or>
      (init_type = ''kaiming'' \<and> activation = None) \<or>
      (init_type = ''xavier'' \<and> xavier_normal' lib weight = None) \<or>
      (init_type = ''orthogonal'' \<and> orthogonal' lib weight = None) \<or>
      (init_type = ''kaiming'' \<and>
       (\<exists>act. activation = Some act \<and>
          kaiming_normal' lib weight (case negative_slope act of Some a \<Rightarrow> a | None \<Rightarrow> 0) = None))) \<and>
   (\<forall>w'. init_type = ''xavier'' \<and> xavier_normal' lib weight = Some w' \<longrightarrow>
      weight_init' lib weight init_type activation = (Inr (), w')) \<and>
   (\<forall>w'. init_type = ''orthogonal'' \<and> orthogonal' lib weight = Some w' \<longrightarrow>
      weight_init' lib weight init_type activation = (Inr (), w')) \<and>
   (\<forall>act w'. init_type = ''kaiming'' \<and> activation = Some act \<and>
      kaiming_normal' lib weight (case negative_slope act of Some a \<Rightarrow> a | None \<Rightarrow> 0) = Some w' \<longrightarrow>
      weight_init' lib weight init_type activation = (Inr (), w'))"
proof -
  consider (x) "init_type = ''xavier''" | (k) "init_type = ''kaiming''"
    | (o) "init_type = ''orthogonal''"
    | (bad) "init_type \<notin> {''xavier'', ''kaiming'', ''orthogonal''}"
    by auto
  then show ?thesis
  proof cases
    case x
    have "weight_init' lib weight init_type activation = in_place (xavier_normal' lib weight) weight"
      by (simp add: x weight_init'_def init_type_dict_def xavier_init_def)
    then show ?thesis
      by (cases "xavier_normal' lib weight") (simp_all add: x in_place_def)
  next
    case o
    have "weight_init' lib weight init_type activation = in_place (orthogonal' lib weight) weight"
      by (simp add: o weight_init'_def init_type_dict_def orthogonal_init_def)
    then show ?thesis
      by (cases "orthogonal' lib weight") (simp_all add: o in_place_def)
  next
    case k
    have w: "weight_init' lib weight init_type activation = kaiming_init lib weight activation"
      by (simp add: k weight_init'_def init_type_dict_def)
    show ?thesis
    proof (cases activation)
      case None
      have "weight_init' lib weight init_type activation = (Inl AssertionError, weight)"
        unfolding w by (simp add: None kaiming_init_def)
      then show ?thesis by (simp add: k None)
    next
      case (Some act)
      have "weight_init' lib weight init_type activation =
              in_place (kaiming_normal' lib weight
                          (case negative_slope act of Some a \<Rightarrow> a | None \<Rightarrow> 0)) weight"
        unfolding w by (cases "negative_slope act") (simp_all add: Some kaiming_init_def)
      then show ?thesis
        by (cases "kaiming_normal' lib weight (case negative_slope act of Some a \<Rightarrow> a | None \<Rightarrow> 0)")
           (simp_all add: k Some in_place_def)
    qed
  next
    case bad
    then have "init_type_dict lib init_type = None"
      using init_type_dict_None [of lib init_type] by blast
    then have "weight_init' lib weight init_type activation =
                 (Inl (KeyError (''Invalid Value in init type: '' @ init_type)), weight)"
      by (simp add: weight_init'_def)
    with bad show ?thesis by auto
  qed
qed

theorem weight_init_errors_witness:
  "weight_init' fill_init \<lparr>shape = [2, 1], data = [3, 4]\<rparr> ''normal'' None =
     (Inl (KeyError ''Invalid Value in init type: normal''), \<lparr>shape = [2, 1], data = [3, 4]\<rparr>) \<and>
   weight_init' fill_init \<lparr>shape = [2, 1], data = [3, 4]\<rparr> ''kaiming'' None =
     (Inl AssertionError, \<lparr>shape = [2, 1], data = [3, 4]\<rparr>) \<and>
   weight_init' fill_init \<lparr>shape = [2, 1], data = [3, 4]\<rparr> ''xavier'' None =
     (Inr (), \<lparr>shape = [2, 1], data = [1 / 2, 1 / 2]\<rparr>) \<and>
   (\<exists>e. fst (weight_init' fill_init \<lparr>shape = [2], data = [3, 4]\<rparr> ''orthogonal'' None) = Inl e) \<and>
   snd (weight_init' fill_init \<lparr>shape = [2], data = [3, 4]\<rparr> ''orthogonal'' None) =
     \<lparr>shape = [2], data = [3, 4]\<rparr>"
  using weight_init_errors [of fill_init "\<lparr>shape = [2, 1], data = [3, 4]\<rparr>" "''normal''" None]
        weight_init_errors [of fill_init "\<lparr>shape = [2, 1], data = [3, 4]\<rparr>" "''kaiming''" None]
        weight_init_errors [of fill_init "\<lparr>shape = [2, 1], data = [3, 4]\<rparr>" "''xavier''" None]
        weight_init_errors [of fill_init "\<lparr>shape = [2], data = [3, 4]\<rparr>" "''orthogonal''" None]
  by (simp add: fill_init_def)

section \<open>Binary encoding: the loop\<close>

lemma where_ge:
  assumes "data One = map (\<lambda>_. 1) (data X)" "data Zero = map (\<lambda>_. 0) (data X)"
  shows "torch_where (ge_scalar X num) One Zero =
           \<lparr>shape = shape One, data = map (\<lambda>v. if num \<le> v then 1 else 0) (data X)\<rparr>"
  unfolding torch_where_def ge_scalar_def using assms
  by (simp add: zip_map_map zip_same_conv_map comp_def zip_map1 zip_map2 split_def)

lemma encode_loop_step:
  assumes i: "i < L" and x: "x < length st" and o: "one < length st" and z: "zero < length st"
    and X: "st ! x = \<lparr>shape = s, data = xs\<rparr>"
    and One: "st ! one = \<lparr>shape = s1, data = map (\<lambda>_. 1) xs\<rparr>"
    and Zero: "st ! zero = \<lparr>shape = s0, data = map (\<lambda>_. 0) xs\<rparr>"
  shows "encode_loop i L x one zero binary st =
           encode_loop (i + 1) L x one zero (binary @ [length st])
             ((st @ [\<lparr>shape = s1, data = map (\<lambda>v. if 2 ^ (L - i - 1) \<le> v then 1 else 0) xs\<rparr>])
                [x := \<lparr>shape = s, data = map (step (L - i - 1)) xs\<rparr>])"
proof -
  let ?num = "2 ^ (L - Suc i) :: int"
  let ?bt = "\<lparr>shape = s1, data = map (\<lambda>v. if ?num \<le> v then 1 else 0) xs\<rparr>"
  have w: "torch_where (ge_scalar (st ! x) ?num) (st ! one) (st ! zero) = ?bt"
    using where_ge [of "st ! one" "st ! x" "st ! zero" ?num] by (simp add: X One Zero)
  have sub: "isub x (mul_scalar ?bt ?num) (st @ [?bt]) =
               (st @ [?bt])[x := \<lparr>shape = s, data = map (step (L - Suc i)) xs\<rparr>]"
    using x by (simp add: isub_def mul_scalar_def nth_append X zip_map2 split_def step_def [abs_def]
        zip_same_conv_map comp_def)
  show ?thesis
    using i by (subst encode_loop.simps) (simp add: new_def Let_def w sub)
qed


lemma bits_Suc: "bits (Suc k) v = (if 2 ^ k \<le> v then 1 else 0) # bits k (step k v)"
  by (simp add: step_def)

lemma rest_Suc: "rest (Suc k) v = rest k (step k v)"
  by (simp add: step_def)

lemma update_append_twice:
  "x < length st \<Longrightarrow> ((st @ [b])[x := u] @ ps)[x := r] = (st @ b # ps)[x := r]"
  by (simp add: list_update_append)

lemma encode_loop_exact:
  assumes "i + k = L" and "x < length st" and "one < length st" "one \<noteq> x"
    and "zero < length st" "zero \<noteq> x"
    and "st ! x = \<lparr>shape = s, data = xs\<rparr>"
    and "st ! one = \<lparr>shape = s1, data = map (\<lambda>_. 1) xs\<rparr>"
    and "st ! zero = \<lparr>shape = s0, data = map (\<lambda>_. 0) xs\<rparr>"
  shows "encode_loop i L x one zero binary st =
           (binary @ [length st..<length st + k],
            (st @ map (\<lambda>j. \<lparr>shape = s1, data = map (\<lambda>v. bits k v ! j) xs\<rparr>) [0..<k])
              [x := \<lparr>shape = s, data = map (rest k) xs\<rparr>])"
  using assms
proof (induction k arbitrary: i st binary xs)
  case 0
  then have "st[x := \<lparr>shape = s, data = xs\<rparr>] = st" by (metis list_update_id)
  moreover have "map (rest 0) xs = xs" by (simp add: map_idI)
  ultimately show ?case using 0 by (subst encode_loop.simps) simp
next
  case (Suc k)
  have i: "i < L" and k: "L - i - 1 = k" and ik: "(i + 1) + k = L" using Suc.prems(1) by auto
  let ?bt = "\<lparr>shape = s1, data = map (\<lambda>v. if 2 ^ k \<le> v then 1 else 0) xs\<rparr>"
  let ?X = "\<lparr>shape = s, data = map (step k) xs\<rparr>"
  let ?st = "(st @ [?bt])[x := ?X]"
  have st1: "encode_loop i L x one zero binary st =
               encode_loop (i + 1) L x one zero (binary @ [length st]) ?st"
    using encode_loop_step [OF i Suc.prems(2,3,5,7,8,9), of binary] by (simp only: k)
  have p: "x < length ?st" "one < length ?st" "zero < length ?st"
    using Suc.prems by simp_all
  have nx: "?st ! x = \<lparr>shape = s, data = map (step k) xs\<rparr>"
    using Suc.prems(2) by simp
  have n1: "?st ! one = \<lparr>shape = s1, data = map (\<lambda>_. 1) (map (step k) xs)\<rparr>"
    using Suc.prems by (simp add: nth_append)
  have n0: "?st ! zero = \<lparr>shape = s0, data = map (\<lambda>_. 0) (map (step k) xs)\<rparr>"
    using Suc.prems by (simp add: nth_append)
  have planes: "map (\<lambda>j. \<lparr>shape = s1, data = map (\<lambda>v. bits (Suc k) v ! j) xs\<rparr>) [0..<Suc k] =
          ?bt # map (\<lambda>j. \<lparr>shape = s1, data = map (\<lambda>v. bits k v ! j) (map (step k) xs)\<rparr>) [0..<k]"
    by (simp only: map_upt_Suc bits_Suc nth_Cons_0 nth_Cons_Suc map_map comp_def)
  have idx: "(binary @ [length st]) @ [length ?st..<length ?st + k] =
             binary @ [length st..<length st + Suc k]"
    by (simp add: upt_conv_Cons)
  have "encode_loop (i + 1) L x one zero (binary @ [length st]) ?st =
          ((binary @ [length st]) @ [length ?st..<length ?st + k],
           (?st @ map (\<lambda>j. \<lparr>shape = s1, data = map (\<lambda>v. bits k v ! j) (map (step k) xs)\<rparr>) [0..<k])
             [x := \<lparr>shape = s, data = map (rest k) (map (step k) xs)\<rparr>])"
    by (rule Suc.IH [OF ik p(1) p(2) Suc.prems(4) p(3) Suc.prems(6) nx n1 n0])
  also have "\<dots> = (binary @ [length st..<length st + Suc k],
            (st @ map (\<lambda>j. \<lparr>shape = s1, data = map (\<lambda>v. bits (Suc k) v ! j) xs\<rparr>) [0..<Suc k])
              [x := \<lparr>shape = s, data = map (rest (Suc k)) xs\<rparr>])"
  proof -
    have rs: "map (rest (Suc k)) xs = map (\<lambda>v. rest k (step k v)) xs"
      by (rule map_cong [OF refl]) (rule rest_Suc)
    show ?thesis
      unfolding planes idx rs
      by (simp only: update_append_twice [OF Suc.prems(2)] map_map comp_def)
  qed
  finally show ?case unfolding st1 .
qed

lemma isub_length: "length (isub x t st) = length st"
  by (simp add: isub_def)

lemma isub_other: "a \<noteq> x \<Longrightarrow> isub x t st ! a = st ! a"
  by (simp add: isub_def)

lemma encode_loop_frame:
  "length st \<le> length (snd (encode_loop i L x one zero binary st)) \<and>
   (\<forall>a<length st. a \<noteq> x \<longrightarrow> snd (encode_loop i L x one zero binary st) ! a = st ! a)"
proof (induction "L - i" arbitrary: i binary st)
  case 0
  then show ?case by (subst (1 2) encode_loop.simps) simp
next
  case (Suc n)
  then have i: "i < L" and n: "n = L - (i + 1)" by auto
  define bt where "bt = torch_where (ge_scalar (st ! x) (2 ^ (L - i - 1))) (st ! one) (st ! zero)"
  define st2 where "st2 = isub x (mul_scalar ((st @ [bt]) ! length st) (2 ^ (L - i - 1))) (st @ [bt])"
  have unf: "encode_loop i L x one zero binary st =
               encode_loop (i + 1) L x one zero (binary @ [length st]) st2"
    using i by (subst encode_loop.simps) (simp add: new_def Let_def bt_def st2_def)
  have len: "length st2 = length st + 1" by (simp add: st2_def isub_length)
  have same: "st2 ! a = st ! a" if "a < length st" "a \<noteq> x" for a
    using that by (simp add: st2_def isub_other nth_append)
  from Suc.hyps(1) [OF n, where binary = "binary @ [length st]" and st = st2]
  have ih: "length st2 \<le> length (snd (encode_loop (i + 1) L x one zero (binary @ [length st]) st2))"
    "\<And>a. a < length st2 \<Longrightarrow> a \<noteq> x \<Longrightarrow>
       snd (encode_loop (i + 1) L x one zero (binary @ [length st]) st2) ! a = st2 ! a"
    by auto
  show ?case unfolding unf using ih(1) ih(2) len same by auto
qed

lemma binary_encode_frame:
  assumes a: "a < length st"
  shows "length st \<le> length (snd (binary_encode flog2 st y max_val)) \<and>
         snd (binary_encode flog2 st y max_val) ! a = st ! a"
proof (cases "0 < max_val")
  case False
  then show ?thesis by (simp add: binary_encode_def)
next
  case True
  define X where "X = clamp (st ! y) 0 max_val"
  show ?thesis
  proof (cases "shape X")
    case Nil
    with True a show ?thesis
      by (simp add: binary_encode_def new_def X_def [symmetric] nth_append)
  next
    case (Cons B ds)
    define st3 where "st3 = st @ [X, ones_like X, zeros_like X]"
    define L where "L = encode_width flog2 max_val"
    define res where
      "res = encode_loop 0 L (length st) (Suc (length st)) (Suc (Suc (length st))) [] st3"
    have fr: "length st3 \<le> length (snd res)" "snd res ! a = st3 ! a"
      using encode_loop_frame [of st3 0 L "length st" "Suc (length st)" "Suc (Suc (length st))" "[]"] a
      by (simp_all add: res_def st3_def)
    have a3: "st3 ! a = st ! a" using a by (simp add: st3_def nth_append)
    have l3: "length st < length st3" by (simp add: st3_def)
    show ?thesis
    proof (cases "stack (map (\<lambda>r. snd res ! r) (fst res)) 1")
      case (Inl e)
      then have "binary_encode flog2 st y max_val = (Inl e, snd res)"
        using True Cons
        by (simp add: binary_encode_def new_def X_def [symmetric] Let_def split_def
              L_def [symmetric] res_def st3_def)
      with fr a3 l3 show ?thesis by simp
    next
      case (Inr t)
      then have "binary_encode flog2 st y max_val = (Inr (length (snd res)), snd res @ [t])"
        using True Cons
        by (simp add: binary_encode_def new_def X_def [symmetric] Let_def split_def
              L_def [symmetric] res_def st3_def)
      with fr a3 l3 a show ?thesis by (simp add: nth_append)
    qed
  qed
qed

lemma bits_length: "length (bits k v) = k"
  by (induction k arbitrary: v) auto

lemma bits_binary: "b \<in> set (bits k v) \<Longrightarrow> b = 0 \<or> b = 1"
  by (induction k arbitrary: v) (auto split: if_splits)

lemma bits_sum:
  "0 \<le> v \<Longrightarrow> v < 2 ^ k \<Longrightarrow> (\<Sum>j<k. bits k v ! j * 2 ^ (k - 1 - j)) = v"
proof (induction k arbitrary: v)
  case 0
  then show ?case by simp
next
  case (Suc k)
  let ?b = "if 2 ^ k \<le> v then 1 else 0 :: int"
  let ?v = "v - ?b * 2 ^ k"
  have r: "0 \<le> ?v" "?v < 2 ^ k" using Suc.prems by auto
  have "(\<Sum>j<Suc k. bits (Suc k) v ! j * 2 ^ (Suc k - 1 - j)) =
        ?b * 2 ^ k + (\<Sum>j<k. bits k ?v ! j * 2 ^ (k - 1 - j))"
    by (simp add: sum.lessThan_Suc_shift del: sum.lessThan_Suc)
  also have "\<dots> = ?b * 2 ^ k + ?v" using Suc.IH [OF r] by simp
  finally show ?case by simp
qed

lemma take1_drop: "k < length zs \<Longrightarrow> take (Suc 0) (drop k zs) = [zs ! k]"
  by (simp add: take_Suc_conv_app_nth)

lemma planes_after_update:
  assumes "x < length st"
  shows "map (\<lambda>r. (st @ ps)[x := R] ! r) [length st..<length st + length ps] = ps"
proof (rule nth_equalityI)
  show "length (map (\<lambda>r. (st @ ps)[x := R] ! r) [length st..<length st + length ps]) = length ps"
    by simp
next
  fix j assume "j < length (map (\<lambda>r. (st @ ps)[x := R] ! r) [length st..<length st + length ps])"
  then have j: "j < length ps" by simp
  then show "map (\<lambda>r. (st @ ps)[x := R] ! r) [length st..<length st + length ps] ! j = ps ! j"
    using assms by (simp add: nth_append)
qed

lemma stack_vectors:
  assumes ne: "ts \<noteq> []" and sh: "\<forall>u\<in>set ts. shape u = [B]"
  shows "stack ts 1 =
           Inr \<lparr>shape = [B, length ts],
                data = concat (map (\<lambda>k. concat (map (\<lambda>u. take 1 (drop k (data u))) ts)) [0..<B])\<rparr>"
proof -
  from ne obtain t ts' where ts: "ts = t # ts'" by (cases ts) auto
  have a: "\<not> (\<exists>u\<in>set ts. shape u \<noteq> shape t)" using sh ts by auto
  have t: "shape t = [B]" using sh ts by auto
  show ?thesis
    unfolding stack_def using a t by (simp add: ts Let_def)
qed

lemma stack_planes:
  assumes L: "0 < L"
  shows "stack (map (\<lambda>j. \<lparr>shape = [B], data = map (\<lambda>v. bits L v ! j) xs\<rparr>) [0..<L]) 1 =
           Inr \<lparr>shape = [B, L],
                data = concat (map (\<lambda>k. concat (map (\<lambda>j. take 1 (drop k (map (\<lambda>v. bits L v ! j) xs))) [0..<L]))
                         [0..<B])\<rparr>"
proof -
  let ?ts = "map (\<lambda>j. \<lparr>shape = [B], data = map (\<lambda>v. bits L v ! j) xs\<rparr>) [0..<L]"
  have "?ts \<noteq> []" using L by simp
  moreover have "\<forall>u\<in>set ?ts. shape u = [B]" by auto
  ultimately have "stack ?ts 1 =
           Inr \<lparr>shape = [B, length ?ts],
                data = concat (map (\<lambda>k. concat (map (\<lambda>u. take 1 (drop k (data u))) ?ts)) [0..<B])\<rparr>"
    by (rule stack_vectors)
  then show ?thesis by (simp add: comp_def)
qed

lemma rows_are_bits:
  assumes "length xs = B"
  shows "concat (map (\<lambda>k. concat (map (\<lambda>j. take 1 (drop k (map (\<lambda>v. bits L v ! j) xs))) [0..<L])) [0..<B])
         = concat (map (bits L) xs)"
proof -
  have row: "concat (map (\<lambda>j. take 1 (drop k (map (\<lambda>v. bits L v ! j) xs))) [0..<L]) = bits L (xs ! k)"
    if "k < B" for k
  proof -
    have e: "map (\<lambda>j. take 1 (drop k (map (\<lambda>v. bits L v ! j) xs))) [0..<L] =
          map (\<lambda>j. [bits L (xs ! k) ! j]) [0..<L]"
      using that assms by (simp add: take1_drop)
    have "concat (map (\<lambda>j. take 1 (drop k (map (\<lambda>v. bits L v ! j) xs))) [0..<L]) =
          concat (map (\<lambda>j. [bits L (xs ! k) ! j]) [0..<L])"
      by (simp only: e)
    also have "\<dots> = map (\<lambda>j. bits L (xs ! k) ! j) [0..<L]"
      by (rule concat_map_singleton)
    also have "\<dots> = bits L (xs ! k)"
      using map_nth [of "bits L (xs ! k)"] by (simp add: bits_length)
    finally show ?thesis .
  qed
  have "map (\<lambda>k. concat (map (\<lambda>j. take 1 (drop k (map (\<lambda>v. bits L v ! j) xs))) [0..<L])) [0..<B] =
        map (\<lambda>k. bits L (xs ! k)) [0..<B]"
    using row by simp
  also have "\<dots> = map (bits L) xs"
    using assms by (intro nth_equalityI) simp_all
  finally show ?thesis by simp
qed

lemma binary_encode_returns:
  assumes m: "0 < max_val" and sh: "shape (clamp (st ! y) 0 max_val) = B # ds"
    and res: "encode_loop 0 (encode_width flog2 max_val) (length st) (Suc (length st))
                (Suc (Suc (length st))) []
                (st @ [clamp (st ! y) 0 max_val, ones_like (clamp (st ! y) 0 max_val),
                       zeros_like (clamp (st ! y) 0 max_val)]) = (binary, st4)"
    and stk: "stack (map (\<lambda>r. st4 ! r) binary) 1 = Inr t"
  shows "binary_encode flog2 st y max_val = (Inr (length st4), st4 @ [t])"
  using assms by (simp add: binary_encode_def new_def Let_def split_def)

lemma binary_encode_vector:
  assumes sh: "shape (st ! y) = [B]" and len: "length (data (st ! y)) = B" and m: "0 < max_val"
    and w: "0 < encode_width flog2 max_val"
  shows "\<exists>st4. binary_encode flog2 st y max_val =
           (Inr (length st4),
            st4 @ [\<lparr>shape = [B, encode_width flog2 max_val],
                    data = concat (map (bits (encode_width flog2 max_val))
                             (map (\<lambda>v. min (max v 0) max_val) (data (st ! y))))\<rparr>])
           \<and> length st \<le> length st4"
proof -
  define L where "L = encode_width flog2 max_val"
  define xs where "xs = map (\<lambda>v. min (max v 0) max_val) (data (st ! y))"
  let ?X = "\<lparr>shape = [B], data = xs\<rparr>"
  let ?st3 = "st @ [?X, ones_like ?X, zeros_like ?X]"
  define planes where
    "planes = map (\<lambda>j. \<lparr>shape = [B], data = map (\<lambda>v. bits L v ! j) xs\<rparr>) [0..<L]"
  define st4 where "st4 = (?st3 @ planes)[length st := \<lparr>shape = [B], data = map (rest L) xs\<rparr>]"
  have L: "0 < L" using w by (simp add: L_def)
  have X: "clamp (st ! y) 0 max_val = ?X" by (simp add: clamp_def sh xs_def)
  have lxs: "length xs = B" by (simp add: xs_def len)
  have "encode_loop 0 L (length st) (Suc (length st)) (Suc (Suc (length st))) [] ?st3 =
          ([] @ [length ?st3..<length ?st3 + L], st4)"
    unfolding st4_def planes_def
    by (rule encode_loop_exact [where ?s0.0 = "[B]"])
       (simp_all add: ones_like_def zeros_like_def nth_append)
  then have loop: "encode_loop 0 (encode_width flog2 max_val) (length st) (Suc (length st))
                (Suc (Suc (length st))) []
                (st @ [clamp (st ! y) 0 max_val, ones_like (clamp (st ! y) 0 max_val),
                       zeros_like (clamp (st ! y) 0 max_val)]) =
          ([length ?st3..<length ?st3 + L], st4)"
    unfolding X L_def [symmetric] by simp
  have pl: "map (\<lambda>r. st4 ! r) [length ?st3..<length ?st3 + L] = planes"
  proof -
    have "length planes = L" by (simp add: planes_def)
    moreover have "length st < length ?st3" by simp
    ultimately show ?thesis
      unfolding st4_def using planes_after_update [of "length st" ?st3 planes] by simp
  qed
  have "stack planes 1 = Inr \<lparr>shape = [B, L], data = concat (map (bits L) xs)\<rparr>"
    unfolding planes_def by (simp only: stack_planes [OF L] rows_are_bits [OF lxs])
  then have stk: "stack (map (\<lambda>r. st4 ! r) [length ?st3..<length ?st3 + L]) 1 =
                Inr \<lparr>shape = [B, L], data = concat (map (bits L) xs)\<rparr>"
    by (simp only: pl)
  have shX: "shape (clamp (st ! y) 0 max_val) = B # []" by (simp add: X)
  have "binary_encode flog2 st y max_val =
          (Inr (length st4), st4 @ [\<lparr>shape = [B, L], data = concat (map (bits L) xs)\<rparr>])"
    by (rule binary_encode_returns [OF m shX loop stk])
  moreover have "length st \<le> length st4" by (simp add: st4_def)
  ultimately show ?thesis unfolding L_def xs_def by blast
qed

lemma floorlog_as_log:
  assumes "0 < max_val"
  shows "floorlog 2 (nat max_val) = nat \<lfloor>log 2 (real_of_int max_val)\<rfloor> + 1"
  using assms by (simp add: floorlog_def)

lemma floorlog_2_60: "floorlog 2 (nat (2 ^ 60 - 1)) = 60"
proof -
  have "floorlog 2 (nat (2 ^ 60 - 1)) \<le> 60" by (rule floorlog_leI) simp_all
  moreover have "60 \<le> floorlog 2 (nat (2 ^ 60 - 1))" by (rule floorlog_geI) simp_all
  ultimately show ?thesis by simp
qed

lemma double_of_int_2_60: "double_of_int (2 ^ 60 - 1) = 2 ^ 60"
proof -
  have "floorlog 2 (nat \<bar>2 ^ 60 - 1\<bar>) = 60" using floorlog_2_60 by simp
  then show ?thesis by (simp add: double_of_int_def Let_def)
qed

lemma double_of_int_small:
  assumes "floorlog 2 (nat \<bar>m\<bar>) \<le> 53"
  shows "double_of_int m = m"
  using assms by (simp add: double_of_int_def Let_def)

lemma encode_width_exact:
  assumes m: "0 < m" and d: "double_of_int m = m"
  shows "encode_width exact_log2 m = floorlog 2 (nat m)"
proof -
  have "0 \<le> log 2 (real_of_int m)" using m by simp
  then have "py_int (log 2 (real_of_int m)) = \<lfloor>log 2 (real_of_int m)\<rfloor>"
    "0 \<le> \<lfloor>log 2 (real_of_int m)\<rfloor>"
    by (simp_all add: py_int_def)
  then show ?thesis
    using m by (simp add: encode_width_def exact_log2_def d floorlog_def nat_add_distrib)
qed

text \<open>
  \<open>2 ^ 60 - 1\<close> and \<open>2 ^ 60\<close> are the same double, so whatever logarithm the platform
  has, the code gives both the same number of columns.
\<close>

lemma encode_width_same_double:
  "encode_width flog2 (2 ^ 60 - 1) = encode_width flog2 (2 ^ 60)"
proof -
  have "floorlog 2 (nat (2 ^ 60)) \<le> 61" by (rule floorlog_leI) simp_all
  moreover have "61 \<le> floorlog 2 (nat (2 ^ 60))" by (rule floorlog_geI) simp_all
  ultimately have "floorlog 2 (nat \<bar>2 ^ 60\<bar>) = 61" by simp
  then have "double_of_int (2 ^ 60) = 2 ^ 60" by (simp add: double_of_int_def Let_def)
  then show ?thesis by (simp only: encode_width_def double_of_int_2_60)
qed

lemma encode_width_2_60: "encode_width exact_log2 (2 ^ 60 - 1) = 61"
proof -
  have "log 2 (2 ^ 60) = (60 :: real)" by (simp add: log_pow_cancel del: power_numeral)
  then have "log 2 (real_of_int (2 ^ 60)) = 60" by simp
  then show ?thesis
    by (simp only: encode_width_def double_of_int_2_60 exact_log2_def py_int_def) simp
qed

section \<open>Binary encoding: the result\<close>

text \<open>
  Claim C1, as stated, fails at \<open>max_val = 2 ^ 60 - 1\<close>: \<open>\<lfloor>log\<^sub>2 max_val\<rfloor> + 1\<close> is 60, but
  \<^verbatim>\<open>math.log\<close> sees the double \<open>2 ^ 60\<close>, whose logarithm is 60, and the result has 61
  columns.
\<close>

theorem binary_encode_width_2_60:
  "nat \<lfloor>log 2 (real_of_int (2 ^ 60 - 1))\<rfloor> + 1 = 60 \<and>
   returned_shape (binary_encode exact_log2 [\<lparr>shape = [1], data = [5]\<rparr>] 0 (2 ^ 60 - 1)) =
     Some [1, 61]"
proof
  show "nat \<lfloor>log 2 (real_of_int (2 ^ 60 - 1))\<rfloor> + 1 = 60"
    using floorlog_as_log [of "2 ^ 60 - 1"] floorlog_2_60 by simp
next
  have "\<exists>st4. binary_encode exact_log2 [\<lparr>shape = [1], data = [5]\<rparr>] 0 (2 ^ 60 - 1) =
           (Inr (length st4),
            st4 @ [\<lparr>shape = [1, encode_width exact_log2 (2 ^ 60 - 1)],
                    data = concat (map (bits (encode_width exact_log2 (2 ^ 60 - 1)))
                             (map (\<lambda>v. min (max v 0) (2 ^ 60 - 1))
                                (data ([\<lparr>shape = [1], data = [5]\<rparr>] ! 0))))\<rparr>])
           \<and> length [\<lparr>shape = [1], data = [5 :: int]\<rparr>] \<le> length st4"
    by (rule binary_encode_vector) (simp_all add: encode_width_2_60 [simplified])
  then show "returned_shape (binary_encode exact_log2 [\<lparr>shape = [1], data = [5]\<rparr>] 0 (2 ^ 60 - 1)) =
     Some [1, 61]"
    by (auto simp: returned_shape_def encode_width_2_60 [simplified])
qed

text \<open>
  Claim C1, amended. For a 64-bit integer tensor \<open>y\<close> of shape \<open>[B]\<close> and \<open>max_val > 0\<close>,
  let \<open>L\<close> be \<^verbatim>\<open>int(math.log(max_val, 2)) + 1\<close> as the code computes it in double
  precision. Whenever \<open>max_val < 2 ^ L\<close> and \<open>L \<le> 63\<close>, \<^verbatim>\<open>binary_encode(y, max_val)\<close>
  returns a tensor of shape \<open>[B, L]\<close> whose entries are 0 or 1, and row \<open>i\<close>, read as a
  big-endian binary number, is \<open>y\<^sub>i\<close> clamped to \<open>[0, max_val]\<close>. \<open>L\<close> is
  \<open>\<lfloor>log\<^sub>2 max_val\<rfloor> + 1\<close> whenever the logarithm computed in double precision has the
  integer part of the real one.
\<close>

theorem binary_encode_big_endian:
  assumes y: "y < length st" and sh: "shape (st ! y) = [B]" and wf: "wf_tensor (st ! y)"
    and m: "0 < max_val" and L: "L = encode_width flog2 max_val"
    and fit: "max_val < 2 ^ L" and dt: "L \<le> 63"
  shows "(\<exists>r st'. binary_encode flog2 st y max_val = (Inr r, st') \<and> r < length st' \<and>
           shape (st' ! r) = [B, L] \<and> wf_tensor (st' ! r) \<and>
           (\<forall>b\<in>set (data (st' ! r)). b = 0 \<or> b = 1) \<and>
           (\<forall>i<B. (\<Sum>j<L. item (st' ! r) [i, j] * 2 ^ (L - 1 - j)) =
                     (if data (st ! y) ! i < 0 then 0
                      else if max_val < data (st ! y) ! i then max_val
                      else data (st ! y) ! i))) \<and>
         (py_int (flog2 (real_of_int (double_of_int max_val))) = \<lfloor>log 2 (real_of_int max_val)\<rfloor>
            \<longrightarrow> L = nat \<lfloor>log 2 (real_of_int max_val)\<rfloor> + 1)"
proof
  define xs where "xs = map (\<lambda>v. min (max v 0) max_val) (data (st ! y))"
  define T where "T = \<lparr>shape = [B, L], data = concat (map (bits L) xs)\<rparr>"
  have len: "length (data (st ! y)) = B" using wf sh by (simp add: wf_tensor_def)
  have lxs: "length xs = B" by (simp add: xs_def len)
  have Lpos: "0 < encode_width flog2 max_val"
  proof (rule ccontr)
    assume "\<not> 0 < encode_width flog2 max_val"
    with L fit m show False by simp
  qed
  from binary_encode_vector [OF sh len m Lpos] obtain st4
    where be: "binary_encode flog2 st y max_val = (Inr (length st4), st4 @ [T])"
    unfolding L [symmetric] T_def xs_def by blast
  have rows: "\<forall>v\<in>set xs. length (bits L v) = L" by (simp add: bits_length)
  have dlen: "length (data T) = B * L"
    using length_concat_rows [OF rows] by (simp add: T_def lxs)
  have wfT: "wf_tensor T" using dlen by (simp add: wf_tensor_def T_def)
  have bin: "\<forall>b\<in>set (data T). b = 0 \<or> b = 1"
    by (auto simp: T_def dest: bits_binary)
  have entry: "item T [i, j] = bits L (xs ! i) ! j" if "i < B" "j < L" for i j
  proof -
    have "item T [i, j] = concat (map (bits L) xs) ! (i * L + j)"
      by (simp add: item_def T_def)
    also have "\<dots> = bits L (xs ! i) ! j"
      using that lxs by (intro concat_rows_nth [OF rows]) simp_all
    finally show ?thesis .
  qed
  have total: "(\<Sum>j<L. item T [i, j] * 2 ^ (L - 1 - j)) =
                 (if data (st ! y) ! i < 0 then 0
                  else if max_val < data (st ! y) ! i then max_val
                  else data (st ! y) ! i)" if i: "i < B" for i
  proof -
    have xi: "xs ! i = min (max (data (st ! y) ! i) 0) max_val"
      using i len by (simp add: xs_def)
    have lo: "0 \<le> xs ! i" using m by (simp add: xi)
    have "xs ! i \<le> max_val" by (simp add: xi)
    with fit have hi: "xs ! i < 2 ^ L" by simp
    have "(\<Sum>j<L. item T [i, j] * 2 ^ (L - 1 - j)) = (\<Sum>j<L. bits L (xs ! i) ! j * 2 ^ (L - 1 - j))"
      using entry [OF i] by (intro sum.cong) simp_all
    also have "\<dots> = xs ! i" by (rule bits_sum [OF lo hi])
    also have "\<dots> = (if data (st ! y) ! i < 0 then 0
                  else if max_val < data (st ! y) ! i then max_val
                  else data (st ! y) ! i)"
      using m by (simp add: xi)
    finally show ?thesis .
  qed
  have "binary_encode flog2 st y max_val = (Inr (length st4), st4 @ [T]) \<and>
        length st4 < length (st4 @ [T]) \<and> (st4 @ [T]) ! length st4 = T"
    using be by simp
  with wfT bin total
  show "\<exists>r st'. binary_encode flog2 st y max_val = (Inr r, st') \<and> r < length st' \<and>
           shape (st' ! r) = [B, L] \<and> wf_tensor (st' ! r) \<and>
           (\<forall>b\<in>set (data (st' ! r)). b = 0 \<or> b = 1) \<and>
           (\<forall>i<B. (\<Sum>j<L. item (st' ! r) [i, j] * 2 ^ (L - 1 - j)) =
                     (if data (st ! y) ! i < 0 then 0
                      else if max_val < data (st ! y) ! i then max_val
                      else data (st ! y) ! i))"
    by (intro exI [of _ "length st4"] exI [of _ "st4 @ [T]"]) (simp add: T_def)
next
  show "py_int (flog2 (real_of_int (double_of_int max_val))) = \<lfloor>log 2 (real_of_int max_val)\<rfloor>
          \<longrightarrow> L = nat \<lfloor>log 2 (real_of_int max_val)\<rfloor> + 1"
  proof
    assume e: "py_int (flog2 (real_of_int (double_of_int max_val))) = \<lfloor>log 2 (real_of_int max_val)\<rfloor>"
    have "0 \<le> log 2 (real_of_int max_val)" using m by simp
    then have "0 \<le> \<lfloor>log 2 (real_of_int max_val)\<rfloor>" by simp
    then show "L = nat \<lfloor>log 2 (real_of_int max_val)\<rfloor> + 1"
      by (simp add: L encode_width_def e nat_add_distrib)
  qed
qed

theorem binary_encode_big_endian_witness:
  "(\<exists>r st'. binary_encode exact_log2 [\<lparr>shape = [3], data = [13, - 2, 5 :: int]\<rparr>] 0 6 = (Inr r, st') \<and>
      r < length st' \<and> shape (st' ! r) = [3, 3] \<and> wf_tensor (st' ! r) \<and>
      (\<forall>b\<in>set (data (st' ! r)). b = 0 \<or> b = 1) \<and>
      (\<forall>i<3. (\<Sum>j<3. item (st' ! r) [i, j] * 2 ^ (3 - 1 - j)) =
                (if data ([\<lparr>shape = [3], data = [13, - 2, 5 :: int]\<rparr>] ! 0) ! i < 0 then 0
                 else if (6 :: int) < data ([\<lparr>shape = [3], data = [13, - 2, 5 :: int]\<rparr>] ! 0) ! i then 6
                 else data ([\<lparr>shape = [3], data = [13, - 2, 5 :: int]\<rparr>] ! 0) ! i))) \<and>
   py_int (exact_log2 (real_of_int (double_of_int 6))) = \<lfloor>log 2 (real_of_int 6)\<rfloor> \<and>
   3 = nat \<lfloor>log 2 (real_of_int 6)\<rfloor> + 1"
proof -
  have h1: "0 < length [\<lparr>shape = [3], data = [13, - 2, 5 :: int]\<rparr>]" by simp
  have h2: "shape ([\<lparr>shape = [3], data = [13, - 2, 5 :: int]\<rparr>] ! 0) = [3]" by simp
  have h3: "wf_tensor ([\<lparr>shape = [3], data = [13, - 2, 5 :: int]\<rparr>] ! 0)" by (simp add: wf_tensor_def)
  have h4: "(0 :: int) < 6" by simp
  have f: "floorlog 2 (nat 6) = 3" by code_simp
  then have d: "double_of_int 6 = 6" by (intro double_of_int_small) simp
  then have h5: "3 = encode_width exact_log2 6" using f by (simp add: encode_width_exact)
  have h6: "(6 :: int) < 2 ^ 3" by simp
  have h7: "(3 :: nat) \<le> 63" by simp
  have a: "py_int (exact_log2 (real_of_int (double_of_int 6))) = \<lfloor>log 2 (real_of_int 6)\<rfloor>"
    by (simp add: d exact_log2_def py_int_def)
  note t = binary_encode_big_endian [OF h1 h2 h3 h4 h5 h6 h7]
  from t [THEN conjunct2] a have "3 = nat \<lfloor>log 2 (real_of_int 6)\<rfloor> + 1" by (rule mp)
  with t [THEN conjunct1] a show ?thesis by (intro conjI)
qed

section \<open>Binary encoding: the input is not modified\<close>

text \<open>
  Claim C10. For every tensor \<open>y\<close> of the store and every \<open>max_val\<close>, after
  \<^verbatim>\<open>binary_encode(y, max_val)\<close>, whether it returned or raised, \<open>y\<close> holds what it held
  before; so does every tensor that existed before the call: \<^verbatim>\<open>clamp\<close> allocates the
  tensor that \<^verbatim>\<open>x -= bit * num\<close> overwrites.
\<close>

theorem binary_encode_keeps_input:
  assumes "y < length st"
  shows "snd (binary_encode flog2 st y max_val) ! y = st ! y \<and>
         length st \<le> length (snd (binary_encode flog2 st y max_val)) \<and>
         (\<forall>a<length st. snd (binary_encode flog2 st y max_val) ! a = st ! a)"
  using assms binary_encode_frame [of _ st flog2 y max_val] by simp

theorem binary_encode_keeps_input_witness:
  "snd (binary_encode exact_log2 [\<lparr>shape = [2], data = [3, 2]\<rparr>] 0 8) ! 0 =
     \<lparr>shape = [2], data = [3, 2]\<rparr> \<and>
   1 \<le> length (snd (binary_encode exact_log2 [\<lparr>shape = [2], data = [3, 2]\<rparr>] 0 8))"
  using binary_encode_keeps_input [of 0 "[\<lparr>shape = [2], data = [3, 2]\<rparr>]" exact_log2 8] by simp

end
